theory Spec2Isabelle
  imports Complex_Main "HOL-Library.AList" "HOL-Library.Multiset"
begin

unbundle bit_operations_syntax

text \<open>
  A model of the event filtering and consequence simulation of the impact assessment
  tool: resolving exposure assets to hazard sites (\<^verbatim>\<open>exposure.py\<close>), the event filter
  (\<^verbatim>\<open>im_fields.py\<close>) and the consequence engine (\<^verbatim>\<open>consequences.py\<close>).  Each Python
  function is a HOL function of the same name; loops are recursive functions, raised
  exceptions are values, and the one object the code mutates through an alias, the
  location of an asset, lives in an explicit store.
\<close>

section \<open>Python values, dictionaries and exceptions\<close>

text \<open>
  Every exception the modelled functions can raise is a value of \<open>error\<close>; a function
  that can raise returns \<open>error + 'a\<close>, with \<open>Inl\<close> for the exception.  \<open>Warning\<close>
  and \<open>Exception\<close> are the Python exception classes of these names
  (\<^verbatim>\<open>raise Warning(...)\<close>, \<^verbatim>\<open>raise Exception(...)\<close>).
\<close>

datatype error =
    AssertionError | KeyError | IndexError | TypeError | ValueError
  | AttributeError | UnboundLocalError | Warning | Exception

definition ebind :: "error + 'a \<Rightarrow> ('a \<Rightarrow> error + 'b) \<Rightarrow> error + 'b" where
  "ebind m f = (case m of Inl e \<Rightarrow> Inl e | Inr x \<Rightarrow> f x)"

text \<open>A comprehension evaluates its elements left to right and stops at the first raise.\<close>

fun collect :: "(error + 'a) list \<Rightarrow> error + 'a list" where
  "collect [] = Inr []"
| "collect (m # ms) =
     (case m of Inl e \<Rightarrow> Inl e
      | Inr x \<Rightarrow> (case collect ms of Inl e \<Rightarrow> Inl e | Inr xs \<Rightarrow> Inr (x # xs)))"

text \<open>
  The consequence file is JSON: \<open>json\<close> is what \<^verbatim>\<open>json.load\<close> returns.  Numbers are
  exact rationals (rounding of floats is outside the model); an object is an association
  list in insertion order, read with \<open>map_of\<close> and written with \<open>AList.update\<close>
  (a key that is present keeps its position, a new key goes to the end, as in a Python
  dict).
\<close>

datatype json =
    JNull | JBool bool | JNum rat | JStr string
  | JArr "json list" | JObj "(string \<times> json) list"

type_synonym dict = "(string \<times> json) list"

definition getitem :: "(string \<times> 'v) list \<Rightarrow> string \<Rightarrow> error + 'v" where
  "getitem d k = (case map_of d k of None \<Rightarrow> Inl KeyError | Some v \<Rightarrow> Inr v)"

definition has_key :: "(string \<times> 'v) list \<Rightarrow> string \<Rightarrow> bool" where
  "has_key d k = (map_of d k \<noteq> None)"

definition dict_len :: "(string \<times> 'v) list \<Rightarrow> nat" where
  "dict_len d = length (remdups (map fst d))"

text \<open>\<^verbatim>\<open>v[k]\<close> with a string key: only a dict accepts it.\<close>

fun subscript_key :: "json \<Rightarrow> string \<Rightarrow> error + json" where
  "subscript_key (JObj d) k = getitem d k"
| "subscript_key _ k = Inl TypeError"

text \<open>
  \<^verbatim>\<open>v[i]\<close> with a non-negative integer: a list or a string is indexed (IndexError out
  of range); a JSON object has string keys only, so the lookup raises KeyError; numbers,
  booleans and null are not subscriptable.
\<close>

fun subscript_idx :: "json \<Rightarrow> nat \<Rightarrow> error + json" where
  "subscript_idx (JArr xs) i = (if i < length xs then Inr (xs ! i) else Inl IndexError)"
| "subscript_idx (JStr s) i = (if i < length s then Inr (JStr [s ! i]) else Inl IndexError)"
| "subscript_idx (JObj d) i = Inl KeyError"
| "subscript_idx _ i = Inl TypeError"

text \<open>\<^verbatim>\<open>v.keys()\<close>: only a dict has the method.\<close>

fun keys_of :: "json \<Rightarrow> error + dict" where
  "keys_of (JObj d) = Inr d"
| "keys_of _ = Inl AttributeError"

text \<open>\<^verbatim>\<open>for x in v\<close>: a list yields its elements, a dict its keys, a string its characters.\<close>

fun iterate :: "json \<Rightarrow> error + json list" where
  "iterate (JArr xs) = Inr xs"
| "iterate (JObj d) = Inr (map (\<lambda>kv. JStr (fst kv)) d)"
| "iterate (JStr s) = Inr (map (\<lambda>c. JStr [c]) s)"
| "iterate _ = Inl TypeError"

text \<open>\<^verbatim>\<open>str(n)\<close> for a non-negative integer: its decimal digits.\<close>

definition digit_char :: "nat \<Rightarrow> char" where
  "digit_char d = char_of (48 + d)"

fun str_nat :: "nat \<Rightarrow> string" where
  "str_nat n = (if n < 10 then [digit_char n] else str_nat (n div 10) @ [digit_char (n mod 10)])"

declare str_nat.simps [simp del]

text \<open>\<^verbatim>\<open>s.lower()\<close> on ASCII letters.\<close>

definition lower_char :: "char \<Rightarrow> char" where
  "lower_char c = (let n = (of_char c :: nat) in if 65 \<le> n \<and> n \<le> 90 then char_of (n + 32) else c)"

definition lower :: "string \<Rightarrow> string" where
  "lower s = map lower_char s"

text \<open>
  \<^verbatim>\<open>min(range(len(ks)), key=ks.__getitem__)\<close>: the index of the first smallest key;
  ValueError on an empty range.
\<close>

fun argmin_from :: "'k::linorder list \<Rightarrow> nat \<Rightarrow> nat \<Rightarrow> 'k \<Rightarrow> nat" where
  "argmin_from [] i best bk = best"
| "argmin_from (k # ks) i best bk =
     (if k < bk then argmin_from ks (Suc i) i k else argmin_from ks (Suc i) best bk)"

definition argmin :: "'k::linorder list \<Rightarrow> error + nat" where
  "argmin ks = (case ks of [] \<Rightarrow> Inl ValueError | k # ks' \<Rightarrow> Inr (argmin_from ks' 1 0 k))"

text \<open>\<^verbatim>\<open>list(xs).index(x)\<close>: the first position of \<open>x\<close>, ValueError if it is absent.\<close>

fun list_index :: "'a list \<Rightarrow> 'a \<Rightarrow> error + nat" where
  "list_index [] x = Inl ValueError"
| "list_index (y # ys) x =
     (if y = x then Inr 0
      else (case list_index ys x of Inl e \<Rightarrow> Inl e | Inr i \<Rightarrow> Inr (Suc i)))"

section \<open>Consequence engine: one asset, one record (consequences.py)\<close>

text \<open>
  \<^verbatim>\<open>[asset_cons[src][i] for i in rndnums]\<close>: the source key is looked up once per
  element, so a missing key only raises when \<open>rndnums\<close> is non-empty.
\<close>

definition rearranged :: "dict \<Rightarrow> string \<Rightarrow> nat list \<Rightarrow> error + json" where
  "rearranged asset_cons src rndnums =
     (case collect (map (\<lambda>i. ebind (getitem asset_cons src) (\<lambda>a. subscript_idx a i)) rndnums) of
        Inl e \<Rightarrow> Inl e | Inr xs \<Rightarrow> Inr (JArr xs))"

text \<open>
  \<^verbatim>\<open>if guard in asset_cons.keys(): out.update({name: [asset_cons[src][i] for i in rndnums]})\<close>
\<close>

definition rrng_field :: "string \<Rightarrow> string \<Rightarrow> string \<Rightarrow> dict \<Rightarrow> nat list \<Rightarrow> dict \<Rightarrow> error + dict" where
  "rrng_field guard src name asset_cons rndnums out =
     (if has_key asset_cons guard
      then (case rearranged asset_cons src rndnums of
              Inl e \<Rightarrow> Inl e | Inr v \<Rightarrow> Inr (AList.update name v out))
      else Inr out)"

text \<open>
  The body of the Tier I loop for one element of \<^verbatim>\<open>asset_cons['consequences']\<close>.
  Component names are JSON strings.  A component other than "global" gets \<open>cost\<close> and
  \<open>damage_state\<close>; "global" gets \<open>recovery\<close> first, guarded by the key \<open>recovery\<close> and
  read from the key \<open>recovery_realizations\<close>, then \<open>cost\<close> and \<open>damage_state\<close>.
\<close>

definition tier1_component :: "json \<Rightarrow> nat list \<Rightarrow> dict \<Rightarrow> error + dict" where
  "tier1_component cmpt rndnums asset_cons_rrng =
     (case subscript_key cmpt ''component'' of
        Inl e \<Rightarrow> Inl e
      | Inr (JStr cname) \<Rightarrow>
          (case cmpt of
             JObj asset_cons \<Rightarrow>
               (if cname \<noteq> ''global''
                then ebind (rrng_field ''cost'' ''cost'' ''cost'' asset_cons rndnums [])
                      (\<lambda>f1. ebind (rrng_field ''damage_state'' ''damage_state'' ''damage_state'' asset_cons rndnums f1)
                      (\<lambda>f2. Inr (AList.update cname (JObj f2) asset_cons_rrng)))
                else ebind (rrng_field ''recovery'' ''recovery_realizations'' ''recovery'' asset_cons rndnums [])
                      (\<lambda>f0. ebind (rrng_field ''cost'' ''cost'' ''cost'' asset_cons rndnums f0)
                      (\<lambda>f1. ebind (rrng_field ''damage_state'' ''damage_state'' ''damage_state'' asset_cons rndnums f1)
                      (\<lambda>f2. Inr (AList.update cname (JObj f2) asset_cons_rrng)))))
           | _ \<Rightarrow> Inl TypeError)
      | Inr _ \<Rightarrow> Inl TypeError)"

fun tier1_loop :: "json list \<Rightarrow> nat list \<Rightarrow> dict \<Rightarrow> error + dict" where
  "tier1_loop [] rndnums asset_cons_rrng = Inr asset_cons_rrng"
| "tier1_loop (cmpt # comps) rndnums asset_cons_rrng =
     (case tier1_component cmpt rndnums asset_cons_rrng of
        Inl e \<Rightarrow> Inl e
      | Inr r \<Rightarrow> tier1_loop comps rndnums r)"

definition tier1 :: "dict \<Rightarrow> nat list \<Rightarrow> error + dict" where
  "tier1 asset_cons rndnums =
     ebind (getitem asset_cons ''consequences'')
       (\<lambda>cs. ebind (iterate cs) (\<lambda>comps. tier1_loop comps rndnums []))"

text \<open>
  Tier II recovery is a dict keyed \<open>rlz_1\<close>, \<open>rlz_2\<close>, ...: the dict comprehension
  \<^verbatim>\<open>{'rlz_'+str(i+1): rec['rlz_'+str(k+1)] for i, k in enumerate(rndnums)}\<close>.
\<close>

definition rlz_key :: "nat \<Rightarrow> string" where
  "rlz_key i = ''rlz_'' @ str_nat (i + 1)"

fun rlz_loop :: "json \<Rightarrow> nat \<Rightarrow> nat list \<Rightarrow> dict \<Rightarrow> error + dict" where
  "rlz_loop g i [] out = Inr out"
| "rlz_loop g i (k # ks) out =
     (case ebind (subscript_key g ''recovery'') (\<lambda>r. subscript_key r (rlz_key k)) of
        Inl e \<Rightarrow> Inl e
      | Inr v \<Rightarrow> rlz_loop g (Suc i) ks (AList.update (rlz_key i) v out))"

definition tier2 :: "dict \<Rightarrow> nat list \<Rightarrow> error + dict" where
  "tier2 asset_cons rndnums =
     ebind (getitem asset_cons ''global'')
       (\<lambda>g. ebind (keys_of g)
       (\<lambda>gd. ebind (rrng_field ''cost'' ''cost'' ''cost'' gd rndnums [])
       (\<lambda>f1. ebind (rrng_field ''damage_state'' ''damage_state'' ''damage_state'' gd rndnums f1)
       (\<lambda>f2. ebind (if has_key gd ''recovery''
                    then ebind (rlz_loop g 0 rndnums [])
                           (\<lambda>rcv. Inr (AList.update ''recovery'' (JObj rcv) f2))
                    else Inr f2)
       (\<lambda>f3. Inr [(''global'', JObj f3)])))))"

text \<open>Lines 126-168: the schema is chosen by the number of keys of the record.\<close>

definition asset_cons_rrng :: "dict \<Rightarrow> nat list \<Rightarrow> error + dict" where
  "asset_cons_rrng asset_cons rndnums =
     (if dict_len asset_cons > 1 then tier1 asset_cons rndnums else tier2 asset_cons rndnums)"

text \<open>
  \<^verbatim>\<open>min(range(len(levels)), key=lambda i: abs(levels[i] - im_value))\<close>: the first level
  closest to the value.
\<close>

definition closest_im :: "rat list \<Rightarrow> rat \<Rightarrow> error + nat" where
  "closest_im asset_im_levels im_value = argmin (map (\<lambda>l. \<bar>l - im_value\<bar>) asset_im_levels)"

text \<open>\<^verbatim>\<open>results\<close>: event id (as a string) to asset name to the rearranged consequences.\<close>

type_synonym results = "(string \<times> (string \<times> dict) list) list"

definition results_update :: "results \<Rightarrow> string \<Rightarrow> string \<Rightarrow> dict \<Rightarrow> results" where
  "results_update results ev asset_name rrng =
     (case map_of results ev of
        Some r \<Rightarrow> AList.update ev (AList.update asset_name rrng r) results
      | None \<Rightarrow> AList.update ev [(asset_name, rrng)] results)"

fun events_loop ::
  "nat \<Rightarrow> nat list \<Rightarrow> rat list \<Rightarrow> string \<Rightarrow> rat list \<Rightarrow> dict list \<Rightarrow> nat list \<Rightarrow> results \<Rightarrow>
   error + results" where
  "events_loop ev_idx [] im_values asset_name asset_im_levels asset_consequences rndnums results =
     Inr results"
| "events_loop ev_idx (event # evs) im_values asset_name asset_im_levels asset_consequences rndnums results =
     (if ev_idx < length im_values then
        (case closest_im asset_im_levels (im_values ! ev_idx) of
           Inl e \<Rightarrow> Inl e
         | Inr idx_closest_im \<Rightarrow>
             if idx_closest_im < length asset_consequences then
               (case asset_cons_rrng (asset_consequences ! idx_closest_im) rndnums of
                  Inl e \<Rightarrow> Inl e
                | Inr rrng \<Rightarrow>
                    events_loop (Suc ev_idx) evs im_values asset_name asset_im_levels
                      asset_consequences rndnums
                      (results_update results (str_nat event) asset_name rrng))
             else Inl IndexError)
      else Inl IndexError)"

definition get_consequences_by_event ::
  "nat list \<Rightarrow> rat list \<Rightarrow> string \<Rightarrow> rat list \<Rightarrow> dict list \<Rightarrow> nat list \<Rightarrow> results \<Rightarrow>
   error + results" where
  "get_consequences_by_event evs im_values asset_name asset_im_levels asset_consequences rndnums results =
     events_loop 0 evs im_values asset_name asset_im_levels asset_consequences rndnums results"

text \<open>
  \<^verbatim>\<open>float(v)\<close> for a JSON value.  The conversion of a string is library code, taken
  as the parameter \<open>float_of_str\<close> (None when the string is no number: ValueError).
\<close>

definition py_float :: "(string \<Rightarrow> rat option) \<Rightarrow> json \<Rightarrow> error + rat" where
  "py_float float_of_str v =
     (case v of
        JNum r \<Rightarrow> Inr r
      | JBool b \<Rightarrow> Inr (if b then 1 else 0)
      | JStr s \<Rightarrow> (case float_of_str s of None \<Rightarrow> Inl ValueError | Some r \<Rightarrow> Inr r)
      | _ \<Rightarrow> Inl TypeError)"

definition get_cons_imlevels :: "(string \<Rightarrow> rat option) \<Rightarrow> dict list \<Rightarrow> error + rat list" where
  "get_cons_imlevels float_of_str consequences =
     collect (map (\<lambda>cons. ebind (getitem cons ''im_level'') (py_float float_of_str)) consequences)"

text \<open>
  \<^verbatim>\<open>find_conss_idx\<close> and \<^verbatim>\<open>find_cons_idx\<close>: the names under \<open>tag\<close>, which must not
  repeat, and the first position of the wanted one.  Names are JSON strings.
\<close>

fun find_conss_idx :: "dict list \<Rightarrow> string \<Rightarrow> string list \<Rightarrow> error + string list" where
  "find_conss_idx [] tag comp_refs = Inr comp_refs"
| "find_conss_idx (comps # rest) tag comp_refs =
     (case getitem comps tag of
        Inl e \<Rightarrow> Inl e
      | Inr (JStr comp_name) \<Rightarrow>
          if comp_name \<in> set comp_refs then Inl Exception
          else find_conss_idx rest tag (comp_refs @ [comp_name])
      | Inr _ \<Rightarrow> Inl TypeError)"

definition find_cons_idx :: "dict list \<Rightarrow> string \<Rightarrow> string \<Rightarrow> error + nat" where
  "find_cons_idx comps_data tag component =
     (case find_conss_idx comps_data tag [] of
        Inl e \<Rightarrow> Inl e
      | Inr names \<Rightarrow>
          (case list_index names component of Inl e \<Rightarrow> Inl IndexError | Inr i \<Rightarrow> Inr i))"

section \<open>Hazard catalog and exposure data\<close>

text \<open>
  The arrays of the IM-field file are lists of rows.  \<open>gmv\<close> holds one value per
  intensity measure; \<open>hypo\<close> keeps the first two entries of the hypocentre, which is all
  the distance filter reads.  Numeric fields are exact rationals: rounding and NaN are
  outside the model.
\<close>

record gmf_row =
  gmf_sid :: nat
  gmf_eid :: nat
  gmv :: "rat list"

record event_row =
  ev_id :: nat
  rup_id :: nat

record rupture_row =
  rupture_id :: nat
  mag :: rat
  hypo :: "rat \<times> rat"

record site_row =
  sids :: nat
  site_lat :: rat
  site_lon :: rat

record imfield =
  gmf_data :: "gmf_row list"
  imts :: string
  events :: "event_row list"
  ruptures :: "rupture_row list"
  sitecol :: "site_row list"

text \<open>The site metadata of the exposure model (the CSV file): site id and coordinates.\<close>

record mtdata_row =
  site_id :: nat
  lat :: rat
  lon :: rat

text \<open>One taxonomy of \<^verbatim>\<open>cons_for_hazard\<close>.\<close>

record tax_cons =
  im_type :: string
  iml_consequences :: "dict list"
  component_damage_state_description :: "dict list"

text \<open>
  An asset of the exposure model.  Its \<open>location\<close> is a dict object of its own, and
  \<^verbatim>\<open>exposure_by_taxonomy\<close> writes into it; so an asset holds the address of its
  location and the location dicts live in an explicit store.  The validators admit a
  positive integer or a list of positive integers for \<open>sid\<close>, and a positive integer
  for \<open>hzrd_ctrl_pnt\<close>; \<open>hazard_sid\<close> is absent until an asset is resolved.
\<close>

datatype sid_value = SInt nat | SList "nat list"

record location =
  loc_sid :: sid_value
  hzrd_ctrl_pnt :: "nat option"
  hazard_sid :: "nat option"

type_synonym addr = nat

type_synonym heap = "addr \<Rightarrow> location"

record asset =
  taxonomy :: string
  asset_type :: string
  asset_location :: addr

type_synonym assets_by_taxonomy = "(string \<times> (string \<times> asset) list) list"

text \<open>
  The geodesic distance of \<^verbatim>\<open>geopy\<close> is library code: the functions that use it take
  it as the parameter \<open>geo\<close>, from two coordinate pairs to kilometres.
\<close>

type_synonym geodesic = "rat \<times> rat \<Rightarrow> rat \<times> rat \<Rightarrow> rat"

section \<open>Resolving assets to hazard sites (exposure.py)\<close>

text \<open>
  \<^verbatim>\<open>find_asset_sid\<close>.  \<^verbatim>\<open>len\<close> of an integer raises TypeError.  For a list that has
  not exactly one entry the control point is used if present; otherwise \<^verbatim>\<open>int(list)\<close>
  raises TypeError and the smallest entry is taken (\<^verbatim>\<open>numpy.sort(sid)[0]\<close>, IndexError
  on an empty list).  An asset type other than point or area leaves \<^verbatim>\<open>site_id\<close>
  unassigned.
\<close>

definition find_asset_sid :: "location \<Rightarrow> string \<Rightarrow> error + sid_value" where
  "find_asset_sid loc atype =
     (if lower atype = ''point'' then
        (case loc_sid loc of
           SInt n \<Rightarrow> Inl TypeError
         | SList xs \<Rightarrow>
             if length xs = 1 then Inr (SList xs)
             else (case hzrd_ctrl_pnt loc of
                     Some c \<Rightarrow> Inr (SInt c)
                   | None \<Rightarrow> (case sort xs of [] \<Rightarrow> Inl IndexError | x # _ \<Rightarrow> Inr (SInt x))))
      else if lower atype = ''area'' then
        (case hzrd_ctrl_pnt loc of Some c \<Rightarrow> Inr (SInt c) | None \<Rightarrow> Inl KeyError)
      else Inl UnboundLocalError)"

text \<open>
  Direct mode: \<^verbatim>\<open>int(sid)\<close>, and for a list (TypeError) its first entry.
\<close>

definition direct_sid :: "sid_value \<Rightarrow> error + nat" where
  "direct_sid s =
     (case s of SInt n \<Rightarrow> Inr n
      | SList xs \<Rightarrow> (case xs of [] \<Rightarrow> Inl IndexError | x # _ \<Rightarrow> Inr x))"

text \<open>
  Geodesic mode.  The comparison \<^verbatim>\<open>site_mtdata['site_id'] == sid\<close> is elementwise; a
  one-element list broadcasts to its entry (\<^verbatim>\<open>find_asset_sid\<close> returns no other list).
  Exactly one row must match.  The distances from every hazard site to the asset are
  computed, the first smallest is chosen, and it must be strictly below
  \<^verbatim>\<open>max_allowable_dist\<close> (comparing with None raises TypeError).
\<close>

definition sid_matches :: "sid_value \<Rightarrow> nat \<Rightarrow> bool" where
  "sid_matches s n = (case s of SInt m \<Rightarrow> n = m | SList xs \<Rightarrow> xs = [n])"

definition geodesic_sid ::
  "geodesic \<Rightarrow> site_row list \<Rightarrow> mtdata_row list option \<Rightarrow> rat option \<Rightarrow> sid_value \<Rightarrow> error + nat" where
  "geodesic_sid geo imfield_sites site_mtdata max_allowable_dist s =
     (case site_mtdata of
        None \<Rightarrow> Inl TypeError
      | Some rows \<Rightarrow>
          (case filter (\<lambda>r. sid_matches s (site_id r)) rows of
             [r] \<Rightarrow>
               (let geo_dist = map (\<lambda>st. geo (site_lat st, site_lon st) (lat r, lon r)) imfield_sites
                in case argmin geo_dist of
                     Inl e \<Rightarrow> Inl e
                   | Inr min_dist_idx \<Rightarrow>
                       (case max_allowable_dist of
                          None \<Rightarrow> Inl TypeError
                        | Some m \<Rightarrow>
                            if geo_dist ! min_dist_idx < m
                            then Inr (sids (imfield_sites ! min_dist_idx))
                            else Inl AssertionError))
           | _ \<Rightarrow> Inl AssertionError))"

text \<open>The hazard site of one asset: lines 204-229 of \<^verbatim>\<open>exposure_by_taxonomy\<close>.\<close>

definition resolve ::
  "geodesic \<Rightarrow> site_row list \<Rightarrow> bool \<Rightarrow> mtdata_row list option \<Rightarrow> rat option \<Rightarrow>
   location \<Rightarrow> string \<Rightarrow> error + nat" where
  "resolve geo imfield_sites hazard2exppoints_consistency site_mtdata max_allowable_dist loc atype =
     (case find_asset_sid loc atype of
        Inl e \<Rightarrow> Inl e
      | Inr s \<Rightarrow>
          if \<not> hazard2exppoints_consistency
          then geodesic_sid geo imfield_sites site_mtdata max_allowable_dist s
          else direct_sid s)"

text \<open>
  The loop over the assets of one taxonomy (\<^verbatim>\<open>get_assets_by_taxonomy\<close> is a generator:
  the assets are tested and processed one at a time).  The store is returned also when
  an exception ends the loop: the annotations written before it stay.
\<close>

fun assets_loop ::
  "(location \<Rightarrow> string \<Rightarrow> error + nat) \<Rightarrow> string \<Rightarrow> (string \<times> asset) list \<Rightarrow>
   heap \<Rightarrow> (string \<times> asset) list \<Rightarrow> heap \<times> (error + (string \<times> asset) list)" where
  "assets_loop rslv tax_key [] h acc = (h, Inr acc)"
| "assets_loop rslv tax_key ((asset_name, a) # rest) h acc =
     (if taxonomy a = tax_key then
        (case rslv (h (asset_location a)) (asset_type a) of
           Inl e \<Rightarrow> (h, Inl e)
         | Inr hsid \<Rightarrow>
             assets_loop rslv tax_key rest
               (h(asset_location a := (h (asset_location a))\<lparr>hazard_sid := Some hsid\<rparr>))
               (AList.update asset_name a acc))
      else assets_loop rslv tax_key rest h acc)"

fun taxonomies_loop ::
  "(location \<Rightarrow> string \<Rightarrow> error + nat) \<Rightarrow> (string \<times> asset) list \<Rightarrow> string list \<Rightarrow>
   heap \<Rightarrow> assets_by_taxonomy \<Rightarrow> heap \<times> (error + assets_by_taxonomy)" where
  "taxonomies_loop rslv exp_assets [] h abt = (h, Inr abt)"
| "taxonomies_loop rslv exp_assets (tax_key # taxes) h abt =
     (case assets_loop rslv tax_key exp_assets h [] of
        (h', Inl e) \<Rightarrow> (h', Inl e)
      | (h', Inr assets) \<Rightarrow>
          taxonomies_loop rslv exp_assets taxes h' (AList.update tax_key assets abt))"

definition exposure_by_taxonomy ::
  "geodesic \<Rightarrow> heap \<Rightarrow> (string \<times> asset) list \<Rightarrow> (string \<times> tax_cons) list \<Rightarrow> imfield \<Rightarrow>
   bool \<Rightarrow> mtdata_row list option \<Rightarrow> rat option \<Rightarrow> heap \<times> (error + assets_by_taxonomy)" where
  "exposure_by_taxonomy geo h exp_assets cons_for_hazard imfield_data
       hazard2exppoints_consistency site_mtdata max_allowable_dist =
     taxonomies_loop
       (resolve geo (sitecol imfield_data) hazard2exppoints_consistency site_mtdata max_allowable_dist)
       exp_assets (map fst cons_for_hazard) h []"

section \<open>Event filter (im\_fields.py)\<close>

text \<open>Python truthiness of an optional number: None and zero are false.\<close>

definition truthy :: "rat option \<Rightarrow> bool" where
  "truthy v = (case v of None \<Rightarrow> False | Some x \<Rightarrow> x \<noteq> 0)"

text \<open>
  The events one asset contributes (lines 42-53).  Method 1 takes every event with a
  sample at the site; method 2 keeps those whose first intensity value reaches the
  threshold (a comparison with None raises TypeError); any other method leaves
  \<^verbatim>\<open>events\<close> unassigned.
\<close>

definition asset_events :: "gmf_row list \<Rightarrow> nat \<Rightarrow> rat option \<Rightarrow> nat \<Rightarrow> error + nat list" where
  "asset_events im_fields events_filtering_method IM_threshold s =
     (let rows = filter (\<lambda>r. gmf_sid r = s) im_fields in
      if events_filtering_method = 1 then Inr (map gmf_eid rows)
      else if events_filtering_method = 2 then
        (case IM_threshold of
           None \<Rightarrow> Inl TypeError
         | Some t \<Rightarrow>
             if list_ex (\<lambda>r. gmv r = []) rows then Inl IndexError
             else Inr (map gmf_eid (filter (\<lambda>r. t \<le> hd (gmv r)) rows)))
      else Inl UnboundLocalError)"

text \<open>
  \<^verbatim>\<open>events_of_interest\<close> is a Python set; here a list without repetitions, grown by
  \<open>List.insert\<close>.  Only its elements matter: the one reader sorts what it derives from
  it.
\<close>

fun event_assets_loop ::
  "heap \<Rightarrow> gmf_row list \<Rightarrow> nat \<Rightarrow> rat option \<Rightarrow> (string \<times> asset) list \<Rightarrow> nat list \<Rightarrow>
   error + nat list" where
  "event_assets_loop h im_fields m t [] events_of_interest = Inr events_of_interest"
| "event_assets_loop h im_fields m t ((asset_name, a) # rest) events_of_interest =
     (case hazard_sid (h (asset_location a)) of
        None \<Rightarrow> Inl KeyError
      | Some s \<Rightarrow>
          (case asset_events im_fields m t s of
             Inl e \<Rightarrow> Inl e
           | Inr evs \<Rightarrow>
               event_assets_loop h im_fields m t rest (fold List.insert evs events_of_interest)))"

fun event_taxonomies_loop ::
  "heap \<Rightarrow> imfield \<Rightarrow> assets_by_taxonomy \<Rightarrow> nat \<Rightarrow> rat option \<Rightarrow> (string \<times> tax_cons) list \<Rightarrow>
   nat list \<Rightarrow> error + nat list" where
  "event_taxonomies_loop h imfield_data exp_assets m t [] events_of_interest = Inr events_of_interest"
| "event_taxonomies_loop h imfield_data exp_assets m t ((tax_key, tc) # rest) events_of_interest =
     (if lower (im_type tc) \<noteq> lower (imts imfield_data) then Inl AssertionError
      else (case getitem exp_assets tax_key of
              Inl e \<Rightarrow> Inl e
            | Inr assets \<Rightarrow>
                (case event_assets_loop h (gmf_data imfield_data) m t assets events_of_interest of
                   Inl e \<Rightarrow> Inl e
                 | Inr evs \<Rightarrow> event_taxonomies_loop h imfield_data exp_assets m t rest evs)))"

definition filter_events_by_imvalue ::
  "heap \<Rightarrow> (string \<times> tax_cons) list \<Rightarrow> imfield \<Rightarrow> assets_by_taxonomy \<Rightarrow> nat \<Rightarrow> rat option \<Rightarrow>
   error + nat list" where
  "filter_events_by_imvalue h consequences imfield_data exp_assets events_filtering_method IM_threshold =
     (if events_filtering_method = 1 \<and> truthy IM_threshold then Inl Warning
      else (case event_taxonomies_loop h imfield_data exp_assets events_filtering_method
                   IM_threshold consequences [] of
              Inl e \<Rightarrow> Inl e
            | Inr events_of_interest \<Rightarrow>
                if length events_of_interest > 0 then Inr events_of_interest
                else Inl AssertionError))"

text \<open>
  \<^verbatim>\<open>fiter_imfield_data\<close>: the event rows of the events of interest, in catalog order,
  and for each of these rows the row of its rupture, in catalog order; a rupture appears
  once for each of its events.
\<close>

definition fiter_imfield_data :: "imfield \<Rightarrow> nat list \<Rightarrow> error + event_row list \<times> rupture_row list" where
  "fiter_imfield_data imfield_data events_of_interest =
     (let event_mtdata = events imfield_data; rupture_mtdata = ruptures imfield_data in
      case collect (map (list_index (map ev_id event_mtdata)) events_of_interest) of
        Inl e \<Rightarrow> Inl e
      | Inr ruptures_of_interest_idx \<Rightarrow>
          (let filtered_event_mtdata = map ((!) event_mtdata) (sort ruptures_of_interest_idx) in
           case collect (map (list_index (map rupture_id rupture_mtdata))
                             (map rup_id filtered_event_mtdata)) of
             Inl e \<Rightarrow> Inl e
           | Inr ruptures_info_idx \<Rightarrow>
               Inr (filtered_event_mtdata, map ((!) rupture_mtdata) (sort ruptures_info_idx))))"

text \<open>
  The bound tests of lines 106-113 and 125-130: a bound that is None or zero is not
  applied.
\<close>

definition in_bounds :: "rat option \<Rightarrow> rat option \<Rightarrow> rat \<Rightarrow> bool" where
  "in_bounds lo hi x =
     (if truthy lo \<and> truthy hi then the lo \<le> x \<and> x \<le> the hi
      else if truthy lo \<and> \<not> truthy hi then the lo \<le> x
      else if truthy hi \<and> \<not> truthy lo then x \<le> the hi
      else True)"

definition filter_events ::
  "geodesic \<Rightarrow> heap \<Rightarrow> imfield \<Rightarrow> (string \<times> tax_cons) list \<Rightarrow> assets_by_taxonomy \<Rightarrow>
   rat option \<Rightarrow> rat option \<Rightarrow> rat option \<Rightarrow> rat option \<Rightarrow> rat option \<Rightarrow> (string \<times> rat) list \<Rightarrow>
   error + nat list" where
  "filter_events geo h imfield_data cons_for_hazard exp_assets min_mag max_mag IM_threshold
       min_dist max_dist ref_coords =
     (let events_filtering_method = (if \<not> truthy IM_threshold then 1 else 2) in
      case filter_events_by_imvalue h cons_for_hazard imfield_data exp_assets
             events_filtering_method IM_threshold of
        Inl e \<Rightarrow> Inl e
      | Inr events_of_interest \<Rightarrow>
      (case fiter_imfield_data imfield_data events_of_interest of
        Inl e \<Rightarrow> Inl e
      | Inr (filtered_event_mtdata, filtered_rupture_mtdata) \<Rightarrow>
      (let filtered_rupture_mtdata_by_mag =
             filter (\<lambda>r. in_bounds min_mag max_mag (mag r)) filtered_rupture_mtdata in
       case (if truthy min_dist \<or> truthy max_dist then
               (if ref_coords = [] then Inl AssertionError
                else (case getitem ref_coords ''lon'' of
                        Inl e \<Rightarrow> Inl e
                      | Inr cent_lon \<Rightarrow>
                     (case getitem ref_coords ''lat'' of
                        Inl e \<Rightarrow> Inl e
                      | Inr cent_lat \<Rightarrow>
                          Inr (map rupture_id
                                 (filter (\<lambda>r. in_bounds min_dist max_dist
                                                 (geo (hypo r) (cent_lon, cent_lat)))
                                    filtered_rupture_mtdata_by_mag)))))
             else Inr (map rupture_id filtered_rupture_mtdata_by_mag)) of
         Inl e \<Rightarrow> Inl e
       | Inr rupts \<Rightarrow>
           (case collect (map (list_index (map rup_id filtered_event_mtdata)) rupts) of
              Inl e \<Rightarrow> Inl e
            | Inr event_idx_ids_for_mag_dist \<Rightarrow>
                Inr (map (\<lambda>i. ev_id (filtered_event_mtdata ! i)) event_idx_ids_for_mag_dist)))))"

section \<open>The pinned generator: \<^verbatim>\<open>random.Random(seed).shuffle\<close>\<close>

text \<open>
  The engine derives its permutations from the standard library: the Mersenne Twister
  MT19937 of CPython 3, seeded from an integer by \<^verbatim>\<open>init_by_array\<close>, and the shuffle
  of \<^verbatim>\<open>random.py\<close>.  It is modelled here so that the permutations of the model are
  the ones the program computes.  A 32-bit word is a non-negative integer below \<open>2^32\<close>,
  with the reduction written out.

  The 624 state words are kept as a list.  The two loops of \<^verbatim>\<open>init_by_array\<close> walk the
  array with an index \<open>i\<close> that wraps from 623 to 1 after copying \<open>mt[623]\<close> to \<open>mt[0]\<close>;
  the model keeps the words before \<open>i\<close> reversed in \<open>dn\<close> (so \<open>mt[i-1]\<close> is its head)
  and the words from \<open>i\<close> on in \<open>td\<close>.
\<close>

definition w32 :: "int \<Rightarrow> int" where
  "w32 x = x mod 4294967296"

definition init_next :: "int \<Rightarrow> int \<Rightarrow> int" where
  "init_next prev i = w32 (1812433253 * (prev XOR drop_bit 30 prev) + i)"

fun init_loop :: "nat \<Rightarrow> int \<Rightarrow> int list \<Rightarrow> int list" where
  "init_loop (Suc n) i (prev # acc) = init_loop n (i + 1) (init_next prev i # prev # acc)"
| "init_loop n i acc = acc"

definition init_genrand :: "int \<Rightarrow> int list" where
  "init_genrand s = rev (init_loop 623 1 [s])"

definition key_mix :: "int \<Rightarrow> int \<Rightarrow> int \<Rightarrow> int \<Rightarrow> int" where
  "key_mix x p kj j = w32 ((x XOR w32 ((p XOR drop_bit 30 p) * 1664525)) + kj + j)"

fun key_loop :: "nat \<Rightarrow> int list \<Rightarrow> int list \<Rightarrow> int \<Rightarrow> int list \<Rightarrow> int list \<Rightarrow> int list \<times> int list"
and key_wrap :: "nat \<Rightarrow> int list \<Rightarrow> int list \<Rightarrow> int \<Rightarrow> int list \<Rightarrow> int list \<times> int list" where
  "key_loop (Suc k) key (kj # ks) j (p # dn) (x # x2 # td) =
     key_loop k key (if ks = [] then key else ks) (if ks = [] then 0 else j + 1)
       (key_mix x p kj j # p # dn) (x2 # td)"
| "key_loop (Suc k) key (kj # ks) j (p # dn) [x] =
     key_wrap k key (if ks = [] then key else ks) (if ks = [] then 0 else j + 1)
       (key_mix x p kj j # p # dn)"
| "key_loop k key ks j dn td = (dn, td)"
| "key_wrap k key ks j (y # dn) = key_loop k key ks j [y] (tl (rev (y # dn)))"
| "key_wrap k key ks j [] = ([], [])"

definition fin_mix :: "int \<Rightarrow> int \<Rightarrow> int \<Rightarrow> int" where
  "fin_mix x p i = w32 ((x XOR w32 ((p XOR drop_bit 30 p) * 1566083941)) - i)"

fun fin_loop :: "nat \<Rightarrow> int \<Rightarrow> int list \<Rightarrow> int list \<Rightarrow> int list \<times> int list"
and fin_wrap :: "nat \<Rightarrow> int list \<Rightarrow> int list \<times> int list" where
  "fin_loop (Suc k) i (p # dn) (x # x2 # td) =
     fin_loop k (i + 1) (fin_mix x p i # p # dn) (x2 # td)"
| "fin_loop (Suc k) i (p # dn) [x] = fin_wrap k (fin_mix x p i # p # dn)"
| "fin_loop k i dn td = (dn, td)"
| "fin_wrap k (y # dn) = fin_loop k 1 [y] (tl (rev (y # dn)))"
| "fin_wrap k [] = ([], [])"

definition init_by_array :: "int list \<Rightarrow> int list" where
  "init_by_array key =
     (let mt0 = init_genrand 19650218;
          s1 = key_loop (max 624 (length key)) key key 0 [hd mt0] (tl mt0);
          s2 = fin_loop 623 (int (length (fst s1))) (fst s1) (snd s1)
      in 2147483648 # tl (rev (fst s2) @ snd s2))"

text \<open>
  Regenerating the state: word \<open>k\<close> is made from the old words \<open>k\<close> and \<open>k+1\<close> and the
  word 397 places ahead, cyclically, which from \<open>k = 227\<close> on is a new word.
\<close>

definition twist :: "int \<Rightarrow> int \<Rightarrow> int \<Rightarrow> int" where
  "twist a b z =
     (let y = (a AND 2147483648) OR (b AND 2147483647)
      in z XOR drop_bit 1 y XOR (if y AND 1 = 0 then 0 else 2567483615))"

fun twist_run :: "int list \<Rightarrow> int list \<Rightarrow> int list" where
  "twist_run (a # b # olds) (z # zs) = twist a b z # twist_run (b # olds) zs"
| "twist_run olds zs = []"

definition regen :: "int list \<Rightarrow> int list" where
  "regen old =
     (let c1 = twist_run old (drop 397 old);
          c2 = twist_run (drop 227 old) c1;
          c3 = twist_run (drop 454 old) c2
      in c1 @ c2 @ c3 @ [twist (old ! 623) (hd c1) (c2 ! 169)])"

definition temper :: "int \<Rightarrow> int" where
  "temper y0 =
     (let y1 = y0 XOR drop_bit 11 y0;
          y2 = y1 XOR (push_bit 7 y1 AND 2636928640);
          y3 = y2 XOR (push_bit 15 y2 AND 4022730752)
      in y3 XOR drop_bit 18 y3)"

text \<open>The state: the 624 words and the words not yet handed out.\<close>

type_synonym mt_state = "int list \<times> int list"

fun genrand_uint32 :: "mt_state \<Rightarrow> int \<times> mt_state" where
  "genrand_uint32 (mt, []) = (let mt' = regen mt in (temper (hd mt'), (mt', tl mt')))"
| "genrand_uint32 (mt, y # rest) = (temper y, (mt, rest))"

text \<open>\<^verbatim>\<open>getrandbits(k)\<close>: the top bits of one word, or several words, lowest first.\<close>

fun getrandbits :: "nat \<Rightarrow> mt_state \<Rightarrow> int \<times> mt_state" where
  "getrandbits k st =
     (if k = 0 then (0, st)
      else if k \<le> 32 then
        (let g = genrand_uint32 st in (drop_bit (32 - k) (fst g), snd g))
      else
        (let g = genrand_uint32 st; h = getrandbits (k - 32) (snd g)
         in (fst g + 4294967296 * fst h, snd h)))"

declare getrandbits.simps [simp del]

fun bit_length :: "nat \<Rightarrow> nat" where
  "bit_length n = (if n = 0 then 0 else Suc (bit_length (n div 2)))"

declare bit_length.simps [simp del]

text \<open>
  \<^verbatim>\<open>_randbelow_with_getrandbits(n)\<close> draws \<open>n.bit_length()\<close> bits until the value is
  below \<open>n\<close>.  Nothing bounds the number of draws, so the loop is a partial function:
  \<open>None\<close> is the loop that never ends.
\<close>

partial_function (option) randbelow_loop :: "nat \<Rightarrow> nat \<Rightarrow> mt_state \<Rightarrow> (nat \<times> mt_state) option" where
  "randbelow_loop n k st =
     (let g = getrandbits k st in
      if int n \<le> fst g then randbelow_loop n k (snd g) else Some (nat (fst g), snd g))"

declare randbelow_loop.simps [code]

definition randbelow :: "nat \<Rightarrow> mt_state \<Rightarrow> (nat \<times> mt_state) option" where
  "randbelow n st = randbelow_loop n (bit_length n) st"

text \<open>
  \<^verbatim>\<open>for i in reversed(range(1, len(x))): j = randbelow(i + 1); x[i], x[j] = x[j], x[i]\<close>
\<close>

fun shuffle_loop :: "nat \<Rightarrow> mt_state \<Rightarrow> 'a list \<Rightarrow> 'a list option" where
  "shuffle_loop 0 st x = Some x"
| "shuffle_loop (Suc i) st x =
     (case randbelow (Suc i + 1) st of
        None \<Rightarrow> None
      | Some (j, st') \<Rightarrow> shuffle_loop i st' (x[Suc i := x ! j, j := x ! Suc i]))"

text \<open>The key of an integer seed: the 32-bit digits of its absolute value, lowest first.\<close>

function seed_key :: "int \<Rightarrow> int list" where
  "seed_key n = (if n < 4294967296 then [n]
                 else (n mod 4294967296) # seed_key (n div 4294967296))"
  by pat_completeness auto
termination
  by (relation "measure nat") auto

declare seed_key.simps [simp del]

definition random_seed :: "int \<Rightarrow> mt_state" where
  "random_seed a = (init_by_array (seed_key \<bar>a\<bar>), [])"

definition py_shuffle :: "int \<Rightarrow> 'a list \<Rightarrow> 'a list option" where
  "py_shuffle a x = shuffle_loop (length x - 1) (random_seed a) x"

section \<open>Consequence engine: all assets of one event (consequences.py)\<close>

text \<open>
  The variables the loops of \<^verbatim>\<open>get_consequences_by_event_all_assets\<close> update.
  \<open>nums\<close> is created once, before the loops, and shuffled in place for every asset.
\<close>

record engine_state =
  rnd_seed :: int
  nums :: "nat list"
  res :: results
  asset_ds_description :: "(string \<times> dict) list"

text \<open>Lines 246-253, once \<open>nums\<close> has been shuffled.\<close>

definition asset_step ::
  "(string \<Rightarrow> rat option) \<Rightarrow> heap \<Rightarrow> nat \<Rightarrow> gmf_row list \<Rightarrow> tax_cons \<Rightarrow> string \<Rightarrow> asset \<Rightarrow>
   nat list \<Rightarrow> results \<Rightarrow> (string \<times> dict) list \<Rightarrow> error + results \<times> (string \<times> dict) list" where
  "asset_step float_of_str h event_id event_rows tc asset_name a rndnums results descr =
     (case hazard_sid (h (asset_location a)) of
        None \<Rightarrow> Inl KeyError
      | Some s \<Rightarrow>
     (case filter (\<lambda>r. gmf_sid r = s) event_rows of
        [] \<Rightarrow> Inl IndexError
      | r # _ \<Rightarrow>
     (case get_cons_imlevels float_of_str (iml_consequences tc) of
        Inl e \<Rightarrow> Inl e
      | Inr asset_im_levels \<Rightarrow>
     (case get_consequences_by_event [event_id] (gmv r) asset_name asset_im_levels
             (iml_consequences tc) rndnums results of
        Inl e \<Rightarrow> Inl e
      | Inr results' \<Rightarrow>
     (case find_cons_idx (component_damage_state_description tc) ''component'' ''global'' of
        Inl e \<Rightarrow> Inl e
      | Inr global_idx \<Rightarrow>
          Inr (results',
               AList.update asset_name (component_damage_state_description tc ! global_idx) descr))))))"

fun all_assets_loop ::
  "(string \<Rightarrow> rat option) \<Rightarrow> heap \<Rightarrow> nat \<Rightarrow> gmf_row list \<Rightarrow> tax_cons \<Rightarrow> (string \<times> asset) list \<Rightarrow>
   engine_state \<Rightarrow> (error + engine_state) option" where
  "all_assets_loop float_of_str h event_id event_rows tc [] st = Some (Inr st)"
| "all_assets_loop float_of_str h event_id event_rows tc ((asset_name, a) # rest) st =
     (case py_shuffle (rnd_seed st + 1) (nums st) of
        None \<Rightarrow> None
      | Some nums' \<Rightarrow>
          (case asset_step float_of_str h event_id event_rows tc asset_name a nums'
                  (res st) (asset_ds_description st) of
             Inl e \<Rightarrow> Some (Inl e)
           | Inr (results', descr') \<Rightarrow>
               all_assets_loop float_of_str h event_id event_rows tc rest
                 \<lparr>rnd_seed = rnd_seed st + 1, nums = nums', res = results',
                  asset_ds_description = descr'\<rparr>))"

fun all_taxonomies_loop ::
  "(string \<Rightarrow> rat option) \<Rightarrow> heap \<Rightarrow> nat \<Rightarrow> imfield \<Rightarrow> assets_by_taxonomy \<Rightarrow>
   (string \<times> tax_cons) list \<Rightarrow> engine_state \<Rightarrow> (error + engine_state) option" where
  "all_taxonomies_loop float_of_str h event_id imfield_data exp_assets [] st = Some (Inr st)"
| "all_taxonomies_loop float_of_str h event_id imfield_data exp_assets ((tax_key, tc) # rest) st =
     (if lower (im_type tc) \<noteq> lower (imts imfield_data) then Some (Inl AssertionError)
      else (case getitem exp_assets tax_key of
              Inl e \<Rightarrow> Some (Inl e)
            | Inr assets \<Rightarrow>
                (case all_assets_loop float_of_str h event_id
                        (filter (\<lambda>r. gmf_eid r = event_id) (gmf_data imfield_data)) tc assets st of
                   None \<Rightarrow> None
                 | Some (Inl e) \<Rightarrow> Some (Inl e)
                 | Some (Inr st') \<Rightarrow>
                     all_taxonomies_loop float_of_str h event_id imfield_data exp_assets rest st')))"

definition init_state :: "nat \<Rightarrow> engine_state" where
  "init_state Nrealizations =
     \<lparr>rnd_seed = 0, nums = [0..<Nrealizations], res = [], asset_ds_description = []\<rparr>"

definition get_consequences_by_event_all_assets ::
  "(string \<Rightarrow> rat option) \<Rightarrow> heap \<Rightarrow> nat \<Rightarrow> imfield \<Rightarrow> (string \<times> tax_cons) list \<Rightarrow> nat \<Rightarrow>
   assets_by_taxonomy \<Rightarrow> (error + results \<times> (string \<times> dict) list) option" where
  "get_consequences_by_event_all_assets float_of_str h event_id imfield_data cons_for_hazard
       Nrealizations exp_assets =
     (case all_taxonomies_loop float_of_str h event_id imfield_data exp_assets cons_for_hazard
             (init_state Nrealizations) of
        None \<Rightarrow> None
      | Some (Inl e) \<Rightarrow> Some (Inl e)
      | Some (Inr st) \<Rightarrow> Some (Inr (res st, asset_ds_description st)))"

text \<open>
  For comparison with the engine: shuffling a list with the seeds \<open>1, ..., n\<close> in turn,
  each shuffle applied to the result of the one before.
\<close>

fun cumulative_shuffle :: "nat \<Rightarrow> 'a list \<Rightarrow> 'a list option" where
  "cumulative_shuffle 0 x = Some x"
| "cumulative_shuffle (Suc n) x =
     (case cumulative_shuffle n x of None \<Rightarrow> None | Some y \<Rightarrow> py_shuffle (int (Suc n)) y)"

text \<open>The number of assets in the taxonomies of a prefix of the consequence model.\<close>

definition n_assets :: "assets_by_taxonomy \<Rightarrow> (string \<times> tax_cons) list \<Rightarrow> nat" where
  "n_assets exp_assets taxes =
     sum_list (map (\<lambda>t. case map_of exp_assets (fst t) of None \<Rightarrow> 0 | Some assets \<Rightarrow> length assets) taxes)"

section \<open>The reindexed outputs as the specification states them\<close>








section \<open>A small catalog for concrete runs\<close>

text \<open>
  One hazard site (id 7) with one ground-motion sample for event 1, one taxonomy \<open>T\<close>
  with a single Tier I record of two realizations, and two assets resolved to site 7.
\<close>

definition demo_heap :: heap where
  "demo_heap = (\<lambda>l. \<lparr>loc_sid = SList [7], hzrd_ctrl_pnt = None, hazard_sid = Some 7\<rparr>)"

definition demo_imfield :: imfield where
  "demo_imfield =
     \<lparr>gmf_data = [\<lparr>gmf_sid = 7, gmf_eid = 1, gmv = [1 / 5]\<rparr>],
      imts = ''PGA'',
      events = [\<lparr>ev_id = 1, rup_id = 1\<rparr>],
      ruptures = [\<lparr>rupture_id = 1, mag = 5, hypo = (0, 0)\<rparr>],
      sitecol = [\<lparr>sids = 7, site_lat = 0, site_lon = 0\<rparr>]\<rparr>"

definition demo_tax :: tax_cons where
  "demo_tax =
     \<lparr>im_type = ''pga'',
      iml_consequences =
        [ [(''im_level'', JNum (1 / 5)),
          (''consequences'',
             JArr [JObj [(''component'', JStr ''global''), (''cost'', JArr [JNum 10, JNum 20])]])] ],
      component_damage_state_description = [ [(''component'', JStr ''global'')] ]\<rparr>"

definition demo_a1 :: asset where
  "demo_a1 = \<lparr>taxonomy = ''T'', asset_type = ''point'', asset_location = 0\<rparr>"

definition demo_a2 :: asset where
  "demo_a2 = \<lparr>taxonomy = ''T'', asset_type = ''point'', asset_location = 1\<rparr>"

definition demo_assets :: assets_by_taxonomy where
  "demo_assets = [(''T'', [(''a1'', demo_a1), (''a2'', demo_a2)])]"

definition demo_final :: engine_state where
  "demo_final =
     \<lparr>rnd_seed = 2, nums = [0, 1],
      res = [(''1'', [(''a1'', [(''global'', JObj [(''cost'', JArr [JNum 20, JNum 10])])]),
                      (''a2'', [(''global'', JObj [(''cost'', JArr [JNum 10, JNum 20])])])])],
      asset_ds_description = [(''a1'', [(''component'', JStr ''global'')]),
                              (''a2'', [(''component'', JStr ''global'')])]\<rparr>"

text \<open>The same catalog with two events of one rupture.\<close>

definition two_event_imfield :: imfield where
  "two_event_imfield =
     \<lparr>gmf_data = [\<lparr>gmf_sid = 7, gmf_eid = 0, gmv = [1 / 5]\<rparr>,
                  \<lparr>gmf_sid = 7, gmf_eid = 1, gmv = [1 / 5]\<rparr>],
      imts = ''PGA'',
      events = [\<lparr>ev_id = 0, rup_id = 0\<rparr>, \<lparr>ev_id = 1, rup_id = 0\<rparr>],
      ruptures = [\<lparr>rupture_id = 0, mag = 5, hypo = (0, 0)\<rparr>],
      sitecol = [\<lparr>sids = 7, site_lat = 0, site_lon = 0\<rparr>]\<rparr>"

text \<open>A store in which no asset has been resolved yet.\<close>

definition bare_heap :: heap where
  "bare_heap = (\<lambda>l. \<lparr>loc_sid = SList [7], hzrd_ctrl_pnt = None, hazard_sid = None\<rparr>)"

text \<open>The taxonomy of the catalog with a cost array of three entries.\<close>

definition long_tax :: tax_cons where
  "long_tax =
     \<lparr>im_type = ''pga'',
      iml_consequences =
        [ [(''im_level'', JNum (1 / 5)),
          (''consequences'',
             JArr [JObj [(''component'', JStr ''global''),
                         (''cost'', JArr [JNum 10, JNum 20, JNum 30])]])] ],
      component_damage_state_description = [ [(''component'', JStr ''global'')] ]\<rparr>"

section \<open>Lemmas about the Python helpers\<close>

lemma ebind_simps [simp]: "ebind (Inl e) f = Inl e" "ebind (Inr x) f = f x"
  by (simp_all add: ebind_def)



lemma rlz_key_0: "rlz_key 0 = ''rlz_1''"
  by code_simp

lemma rlz_key_1: "rlz_key (Suc 0) = ''rlz_2''"
  by code_simp

lemma update_append_new: "k \<notin> fst ` set al \<Longrightarrow> AList.update k v al = al @ [(k, v)]"
  by (induction al) auto

lemma set_update_subset: "set (AList.update k v al) \<subseteq> insert (k, v) (set al)"
  by (induction al) auto

text \<open>\<^verbatim>\<open>str\<close> is injective on the naturals, so the keys \<open>rlz_1\<close>, \<open>rlz_2\<close>, ... are distinct.\<close>

lemma str_nat_decode:
  "foldl (\<lambda>a c. 10 * a + (of_char c - 48)) 0 (str_nat n) = n"
proof (induction n rule: str_nat.induct)
  case (1 n)
  have d: "of_char (digit_char k) - 48 = k" if "k < 10" for k :: nat
    using that by (simp add: digit_char_def)
  show ?case
  proof (cases "n < 10")
    case True
    then show ?thesis by (simp add: str_nat.simps [of n] d)
  next
    case False
    with 1 have "foldl (\<lambda>a c. 10 * a + (of_char c - 48)) 0 (str_nat (n div 10)) = n div 10"
      by simp
    with False show ?thesis by (simp add: str_nat.simps [of n] d)
  qed
qed

lemma str_nat_inj: "str_nat m = str_nat n \<Longrightarrow> m = n"
  by (metis str_nat_decode)

lemma rlz_key_inj: "rlz_key i = rlz_key j \<longleftrightarrow> i = j"
  using str_nat_inj [of "i + 1" "j + 1"] by (auto simp: rlz_key_def)

lemma ebind_Inr: "ebind m f = Inr y \<Longrightarrow> \<exists>x. m = Inr x \<and> f x = Inr y"
  by (cases m) simp_all

lemma collect_Inr:
  "collect ms = Inr xs \<Longrightarrow> length xs = length ms \<and> (\<forall>i<length ms. ms ! i = Inr (xs ! i))"
proof (induction ms arbitrary: xs)
  case Nil
  then show ?case by simp
next
  case (Cons m ms)
  from Cons.prems obtain x xs' where m: "m = Inr x" and c: "collect ms = Inr xs'"
    and xs: "xs = x # xs'"
    by (auto split: sum.splits)
  from Cons.IH [OF c] have "length xs' = length ms" "\<forall>i<length ms. ms ! i = Inr (xs' ! i)"
    by simp_all
  with m xs show ?case by (auto simp: nth_Cons split: nat.splits)
qed

lemma dict_len_two:
  assumes "map_of d k1 \<noteq> None" and "map_of d k2 \<noteq> None" and "k1 \<noteq> k2"
  shows "1 < dict_len d"
proof -
  from assms(1,2) have "{k1, k2} \<subseteq> set (map fst d)"
    by (auto simp: map_of_eq_None_iff)
  then have "card {k1, k2} \<le> card (set (map fst d))"
    by (intro card_mono) simp_all
  with assms(3) show ?thesis by (simp add: dict_len_def length_remdups_card_conv)
qed

lemma map_snd_distinct:
  "distinct (map fst r) \<Longrightarrow> map snd r = map (\<lambda>k. the (map_of r k)) (map fst r)"
proof (induction r)
  case Nil
  then show ?case by simp
next
  case (Cons x r)
  obtain k v where x: "x = (k, v)" by (cases x)
  from Cons.prems x have nk: "k \<notin> fst ` set r" and d: "distinct (map fst r)" by auto
  have "map (\<lambda>k'. the (map_of (x # r) k')) (map fst r) = map (\<lambda>k'. the (map_of r k')) (map fst r)"
    using nk x by (intro map_cong) auto
  with Cons.IH [OF d] x show ?case by simp
qed

section \<open>Reindexing and schema dispatch\<close>












text \<open>
  Tier I recovery on the \<open>global\<close> component: with both keys present the realizations
  are rearranged like the other arrays; with \<open>recovery\<close> alone the read of
  \<open>recovery_realizations\<close> raises KeyError.
\<close>

lemma tier1_recovery_both_keys:
  "asset_cons_rrng
     [(''im_level'', JNum 1),
      (''consequences'',
         JArr [JObj [(''component'', JStr ''global''),
                     (''recovery'', JNum 3),
                     (''recovery_realizations'', JArr [JStr ''r0'', JStr ''r1''])]])]
     [1, 0]
   = Inr [(''global'', JObj [(''recovery'', JArr [JStr ''r1'', JStr ''r0''])])]"
  by (simp add: asset_cons_rrng_def dict_len_def tier1_def getitem_def tier1_component_def
                rrng_field_def has_key_def rearranged_def)

lemma tier1_recovery_key_error:
  "asset_cons_rrng
     [(''im_level'', JNum 1),
      (''consequences'',
         JArr [JObj [(''component'', JStr ''global''),
                     (''recovery'', JArr [JStr ''r0'', JStr ''r1''])]])]
     [1, 0]
   = Inl KeyError"
  by (simp add: asset_cons_rrng_def dict_len_def tier1_def getitem_def tier1_component_def
                rrng_field_def has_key_def rearranged_def)

text \<open>
  Claim C6 (fails on the code).  A Tier I record whose \<open>global\<close> component carries its
  recovery realizations under \<open>recovery_realizations\<close>, and has no key \<open>recovery\<close>, is
  processed without error and the output has no \<open>recovery\<close> entry: the guard tests the key
  \<open>recovery\<close> while the realizations are read from \<open>recovery_realizations\<close>.
\<close>

theorem C6_recovery_silently_omitted:
  "asset_cons_rrng
     [(''im_level'', JNum 1),
      (''consequences'',
         JArr [JObj [(''component'', JStr ''global''),
                     (''recovery_realizations'', JArr [JStr ''r0'', JStr ''r1'']),
                     (''cost'', JArr [JNum 1, JNum 2])]])]
     [1, 0]
   = Inr [(''global'', JObj [(''cost'', JArr [JNum 2, JNum 1])])]"
  by (simp add: asset_cons_rrng_def dict_len_def tier1_def getitem_def tier1_component_def
                rrng_field_def has_key_def rearranged_def)

section \<open>The shuffle yields a permutation\<close>

lemma randbelow_loop_less_aux:
  assumes "randbelow_loop n k st = Some r0"
  shows "0 < n \<longrightarrow> fst r0 < n"
proof (rule randbelow_loop.raw_induct
         [where P = "\<lambda>n k st r. 0 < n \<longrightarrow> fst r < n", OF _ assms])
  fix f :: "nat \<Rightarrow> nat \<Rightarrow> mt_state \<Rightarrow> (nat \<times> mt_state) option"
  fix n k st r
  assume IH: "\<And>n k st y. f n k st = Some y \<Longrightarrow> 0 < n \<longrightarrow> fst y < n"
  assume step: "(let g = getrandbits k st
                 in if int n \<le> fst g then f n k (snd g) else Some (nat (fst g), snd g)) = Some r"
  show "0 < n \<longrightarrow> fst r < n"
  proof (cases "int n \<le> fst (getrandbits k st)")
    case True
    with step have "f n k (snd (getrandbits k st)) = Some r"
      by (simp add: Let_def)
    with IH show ?thesis by blast
  next
    case False
    with step have "r = (nat (fst (getrandbits k st)), snd (getrandbits k st))"
      by (simp add: Let_def)
    with False show ?thesis by auto
  qed
qed

lemma randbelow_loop_less:
  assumes "randbelow_loop n k st = Some r0" and "0 < n"
  shows "fst r0 < n"
  using randbelow_loop_less_aux [OF assms(1)] assms(2) by simp

lemma randbelow_less: "randbelow n st = Some (j, st') \<Longrightarrow> 0 < n \<Longrightarrow> j < n"
  using randbelow_loop_less [of n "bit_length n" st "(j, st')"] by (simp add: randbelow_def)

lemma shuffle_loop_mset:
  "shuffle_loop i st x = Some y \<Longrightarrow> i < length x \<Longrightarrow> mset y = mset x"
proof (induction i arbitrary: st x)
  case 0
  then show ?case by simp
next
  case (Suc i)
  from Suc.prems(1) obtain j st' where
    rb: "randbelow (Suc i + 1) st = Some (j, st')" and
    rest: "shuffle_loop i st' (x[Suc i := x ! j, j := x ! Suc i]) = Some y"
    by (auto split: option.splits)
  from randbelow_less [OF rb] have "j < Suc i + 1" by simp
  with Suc.prems(2) have j: "j < length x" by simp
  have sw: "mset (x[Suc i := x ! j, j := x ! Suc i]) = mset x"
    using mset_swap [OF j Suc.prems(2)] by simp
  have "mset y = mset (x[Suc i := x ! j, j := x ! Suc i])"
    using Suc.IH [OF rest] Suc.prems(2) by simp
  with sw show ?case by simp
qed

lemma py_shuffle_mset: "py_shuffle a x = Some y \<Longrightarrow> mset y = mset x"
proof (cases x)
  case Nil
  assume "py_shuffle a x = Some y"
  with Nil show ?thesis by (simp add: py_shuffle_def)
next
  case (Cons z zs)
  assume "py_shuffle a x = Some y"
  then show ?thesis
    using shuffle_loop_mset [of "length x - 1" "random_seed a" x y] Cons
    by (simp add: py_shuffle_def)
qed

lemma cumulative_shuffle_mset: "cumulative_shuffle n x = Some y \<Longrightarrow> mset y = mset x"
proof (induction n arbitrary: y)
  case 0
  then show ?case by simp
next
  case (Suc n)
  then show ?case
    by (auto split: option.splits dest: py_shuffle_mset)
qed


lemma all_assets_loop_append:
  "all_assets_loop f h ev rows tc (xs @ ys) st =
     (case all_assets_loop f h ev rows tc xs st of
        None \<Rightarrow> None
      | Some (Inl e) \<Rightarrow> Some (Inl e)
      | Some (Inr st1) \<Rightarrow> all_assets_loop f h ev rows tc ys st1)"
  by (induction xs arbitrary: st) (auto split: option.splits sum.splits prod.splits)

lemma all_taxonomies_loop_append:
  "all_taxonomies_loop f h ev imf ex (xs @ ys) st =
     (case all_taxonomies_loop f h ev imf ex xs st of
        None \<Rightarrow> None
      | Some (Inl e) \<Rightarrow> Some (Inl e)
      | Some (Inr st1) \<Rightarrow> all_taxonomies_loop f h ev imf ex ys st1)"
  by (induction xs arbitrary: st) (auto split: if_splits option.splits sum.splits prod.splits)

lemma all_assets_loop_inv:
  "all_assets_loop f h ev rows tc xs st = Some (Inr st') \<Longrightarrow>
   rnd_seed st = int m \<Longrightarrow> cumulative_shuffle m x0 = Some (nums st) \<Longrightarrow>
   rnd_seed st' = int (m + length xs) \<and> cumulative_shuffle (m + length xs) x0 = Some (nums st')"
proof (induction xs arbitrary: st m)
  case Nil
  then show ?case by simp
next
  case (Cons x xs)
  obtain asset_name a where x: "x = (asset_name, a)" by (cases x)
  from Cons.prems(1) x obtain nums' results' descr' where
    sh: "py_shuffle (rnd_seed st + 1) (nums st) = Some nums'" and
    rest: "all_assets_loop f h ev rows tc xs
             \<lparr>rnd_seed = rnd_seed st + 1, nums = nums', res = results',
              asset_ds_description = descr'\<rparr> = Some (Inr st')"
    by (auto split: option.splits sum.splits prod.splits)
  have c: "cumulative_shuffle (Suc m) x0 = Some nums'"
    using Cons.prems(2,3) sh by (simp add: add.commute)
  have "rnd_seed st' = int (Suc m + length xs) \<and>
        cumulative_shuffle (Suc m + length xs) x0 = Some (nums st')"
    by (rule Cons.IH [OF rest]) (use Cons.prems(2) c in simp_all)
  then show ?case by simp
qed

lemma all_taxonomies_loop_inv:
  "all_taxonomies_loop f h ev imf ex taxes st = Some (Inr st') \<Longrightarrow>
   rnd_seed st = int m \<Longrightarrow> cumulative_shuffle m x0 = Some (nums st) \<Longrightarrow>
   rnd_seed st' = int (m + n_assets ex taxes) \<and>
   cumulative_shuffle (m + n_assets ex taxes) x0 = Some (nums st')"
proof (induction taxes arbitrary: st m)
  case Nil
  then show ?case by (simp add: n_assets_def)
next
  case (Cons t taxes)
  obtain tax_key tc where t: "t = (tax_key, tc)" by (cases t)
  from Cons.prems(1) t obtain assets st1 where
    g: "map_of ex tax_key = Some assets" and
    a: "all_assets_loop f h ev (filter (\<lambda>r. gmf_eid r = ev) (gmf_data imf)) tc assets st
          = Some (Inr st1)" and
    rest: "all_taxonomies_loop f h ev imf ex taxes st1 = Some (Inr st')"
    by (auto simp: getitem_def split: if_splits option.splits sum.splits)
  from all_assets_loop_inv [OF a Cons.prems(2,3)]
  have i1: "rnd_seed st1 = int (m + length assets)"
    and c1: "cumulative_shuffle (m + length assets) x0 = Some (nums st1)" by simp_all
  from Cons.IH [OF rest i1 c1]
  show ?case using t g by (simp add: n_assets_def add.assoc)
qed

lemma engine_permutation_at:
  assumes run: "all_taxonomies_loop f h ev imf ex (cpre @ (tax_key, tc) # cpost) (init_state N)
                  = Some (Inr fin)"
      and assets: "map_of ex tax_key = Some (apre @ (asset_name, a) # apost)"
  shows "\<exists>st0 st P r d.
           all_taxonomies_loop f h ev imf ex cpre (init_state N) = Some (Inr st0)
         \<and> all_assets_loop f h ev (filter (\<lambda>r. gmf_eid r = ev) (gmf_data imf)) tc apre st0
              = Some (Inr st)
         \<and> rnd_seed st = int (n_assets ex cpre + length apre)
         \<and> cumulative_shuffle (n_assets ex cpre + length apre) [0..<N] = Some (nums st)
         \<and> py_shuffle (rnd_seed st + 1) (nums st) = Some P
         \<and> asset_step f h ev (filter (\<lambda>r. gmf_eid r = ev) (gmf_data imf)) tc asset_name a P
              (res st) (asset_ds_description st) = Inr (r, d)"
proof -
  let ?rows = "filter (\<lambda>r. gmf_eid r = ev) (gmf_data imf)"
  from run obtain st0 where
    p0: "all_taxonomies_loop f h ev imf ex cpre (init_state N) = Some (Inr st0)" and
    r0: "all_taxonomies_loop f h ev imf ex ((tax_key, tc) # cpost) st0 = Some (Inr fin)"
    by (auto simp: all_taxonomies_loop_append split: option.splits sum.splits)
  from r0 assets obtain st1 where
    a1: "all_assets_loop f h ev ?rows tc (apre @ (asset_name, a) # apost) st0 = Some (Inr st1)"
    by (auto simp: getitem_def split: if_splits option.splits sum.splits)
  then obtain st where
    p1: "all_assets_loop f h ev ?rows tc apre st0 = Some (Inr st)" and
    r1: "all_assets_loop f h ev ?rows tc ((asset_name, a) # apost) st = Some (Inr st1)"
    by (auto simp: all_assets_loop_append split: option.splits sum.splits)
  from r1 obtain P r d where
    sh: "py_shuffle (rnd_seed st + 1) (nums st) = Some P" and
    stp: "asset_step f h ev ?rows tc asset_name a P (res st) (asset_ds_description st) = Inr (r, d)"
    by (auto split: option.splits sum.splits prod.splits)
  have i0: "rnd_seed (init_state N) = int 0"
    and c0: "cumulative_shuffle 0 [0..<N] = Some (nums (init_state N))"
    by (simp_all add: init_state_def)
  from all_taxonomies_loop_inv [OF p0 i0 c0]
  have i1: "rnd_seed st0 = int (n_assets ex cpre)"
    and c1: "cumulative_shuffle (n_assets ex cpre) [0..<N] = Some (nums st0)" by simp_all
  from all_assets_loop_inv [OF p1 i1 c1]
  have "rnd_seed st = int (n_assets ex cpre + length apre)"
    and "cumulative_shuffle (n_assets ex cpre + length apre) [0..<N] = Some (nums st)"
    by simp_all
  with p0 p1 sh stp show ?thesis by blast
qed

section \<open>The generator and the engine on concrete inputs\<close>

text \<open>
  The shuffles of a two-element list with the seeds 1 and 2, computed from the model of
  the generator.  \<^verbatim>\<open>random.Random(1).shuffle(x)\<close> and \<^verbatim>\<open>random.Random(2).shuffle(x)\<close>
  both swap the two entries.
\<close>

lemma py_shuffle_seed1_pair: "py_shuffle 1 [a, b::nat] = Some [b, a]"
  by code_simp

lemma py_shuffle_seed2_pair: "py_shuffle 2 [a, b::nat] = Some [b, a]"
  by code_simp

text \<open>The seed-1 shuffle of five entries, as \<^verbatim>\<open>random.Random(1).shuffle\<close> returns it.\<close>

lemma py_shuffle_seed1_five: "py_shuffle 1 [0, 1, 2, 3, 4::nat] = Some [2, 3, 4, 0, 1]"
  by code_simp

lemma lower_pga: "lower ''pga'' = lower ''PGA''"
  by code_simp

lemma str_nat_1: "str_nat (Suc 0) = ''1''"
  by code_simp

lemma upt_0_2: "[0..<2] = [0, Suc 0]"
  by (simp add: upt_rec)

lemma demo_run:
  "all_taxonomies_loop (\<lambda>s. None) demo_heap 1 demo_imfield demo_assets [(''T'', demo_tax)]
      (init_state 2)
   = Some (Inr demo_final)"
  by (simp add: init_state_def upt_0_2 py_shuffle_seed1_pair py_shuffle_seed2_pair
        asset_step_def demo_heap_def demo_tax_def demo_a1_def demo_a2_def demo_imfield_def
        demo_assets_def demo_final_def get_cons_imlevels_def lower_pga
        py_float_def getitem_def get_consequences_by_event_def closest_im_def argmin_def
        asset_cons_rrng_def dict_len_def tier1_def tier1_component_def rrng_field_def has_key_def
        rearranged_def results_update_def str_nat_1 find_cons_idx_def)

lemma demo_assets_T:
  "map_of demo_assets ''T'' = Some ([(''a1'', demo_a1)] @ (''a2'', demo_a2) # [])"
  by (simp add: demo_assets_def)

section \<open>The permutation of each asset\<close>

text \<open>
  Claim C1, as amended.  In a run that returns, let the asset \<open>(asset_name, a)\<close> stand at
  position \<open>k\<close> of the traversal: after the taxonomies \<open>cpre\<close> and, within its
  own taxonomy, after the assets \<open>apre\<close>, so \<open>k = n_assets ex cpre + length apre\<close>.  The
  engine reaches it in a state \<open>st\<close>, shuffles \<open>nums st\<close> with the seed \<open>k + 1\<close> and
  hands the result \<open>P\<close> to the asset's computation; and \<open>P\<close> is the identity sequence
  shuffled with the seeds \<open>1, ..., k + 1\<close> in turn.  It depends on \<open>k\<close> and
  \<open>Nrealizations\<close> only, and for \<open>k = 0\<close> it is the seed-1 shuffle of the identity.
\<close>

theorem C1_cumulative_permutation:
  assumes "all_taxonomies_loop f h ev imf ex (cpre @ (tax_key, tc) # cpost) (init_state N)
             = Some (Inr fin)"
      and "map_of ex tax_key = Some (apre @ (asset_name, a) # apost)"
  shows "\<exists>st0 st P r d.
           all_taxonomies_loop f h ev imf ex cpre (init_state N) = Some (Inr st0)
         \<and> all_assets_loop f h ev (filter (\<lambda>r. gmf_eid r = ev) (gmf_data imf)) tc apre st0
              = Some (Inr st)
         \<and> py_shuffle (int (n_assets ex cpre + length apre) + 1) (nums st) = Some P
         \<and> asset_step f h ev (filter (\<lambda>r. gmf_eid r = ev) (gmf_data imf)) tc asset_name a P
              (res st) (asset_ds_description st) = Inr (r, d)
         \<and> cumulative_shuffle (n_assets ex cpre + length apre + 1) [0..<N] = Some P"
proof -
  from engine_permutation_at [OF assms]
  obtain st0 st P r d where
    p0: "all_taxonomies_loop f h ev imf ex cpre (init_state N) = Some (Inr st0)" and
    p1: "all_assets_loop f h ev (filter (\<lambda>r. gmf_eid r = ev) (gmf_data imf)) tc apre st0
              = Some (Inr st)" and
    sd: "rnd_seed st = int (n_assets ex cpre + length apre)" and
    cs: "cumulative_shuffle (n_assets ex cpre + length apre) [0..<N] = Some (nums st)" and
    sh: "py_shuffle (rnd_seed st + 1) (nums st) = Some P" and
    stp: "asset_step f h ev (filter (\<lambda>r. gmf_eid r = ev) (gmf_data imf)) tc asset_name a P
              (res st) (asset_ds_description st) = Inr (r, d)"
    by blast
  from sd sh have sh': "py_shuffle (int (n_assets ex cpre + length apre) + 1) (nums st) = Some P"
    by simp
  from cs sh' have "cumulative_shuffle (n_assets ex cpre + length apre + 1) [0..<N] = Some P"
    by (simp add: add.commute)
  with p0 p1 sh' stp show ?thesis by blast
qed


theorem C1_witness:
  "all_taxonomies_loop (\<lambda>s. None) demo_heap 1 demo_imfield demo_assets
       ([] @ (''T'', demo_tax) # []) (init_state 2) = Some (Inr demo_final)
   \<and> map_of demo_assets ''T'' = Some ([(''a1'', demo_a1)] @ (''a2'', demo_a2) # [])
   \<and> (\<exists>st0 st P r d.
           all_taxonomies_loop (\<lambda>s. None) demo_heap 1 demo_imfield demo_assets [] (init_state 2)
             = Some (Inr st0)
         \<and> all_assets_loop (\<lambda>s. None) demo_heap 1
              (filter (\<lambda>r. gmf_eid r = 1) (gmf_data demo_imfield)) demo_tax [(''a1'', demo_a1)] st0
              = Some (Inr st)
         \<and> py_shuffle (int (n_assets demo_assets [] + length [(''a1'', demo_a1)]) + 1) (nums st)
              = Some P
         \<and> asset_step (\<lambda>s. None) demo_heap 1
              (filter (\<lambda>r. gmf_eid r = 1) (gmf_data demo_imfield)) demo_tax ''a2'' demo_a2 P
              (res st) (asset_ds_description st) = Inr (r, d)
         \<and> cumulative_shuffle (n_assets demo_assets [] + length [(''a1'', demo_a1)] + 1) [0..<2]
              = Some P)"
proof -
  have h1: "all_taxonomies_loop (\<lambda>s. None) demo_heap 1 demo_imfield demo_assets
       ([] @ (''T'', demo_tax) # []) (init_state 2) = Some (Inr demo_final)"
    using demo_run by simp
  from C1_cumulative_permutation [OF h1 demo_assets_T] h1 demo_assets_T
  show ?thesis by blast
qed

text \<open>
  Claim C1 as stated fails for the second asset (position 1) of the small catalog with
  two realizations: the engine applies \<open>[0, 1]\<close> to it, the seed-2 shuffle of the list
  \<open>[1, 0]\<close> left by the first asset, while the seed-2 shuffle of the identity sequence
  is \<open>[1, 0]\<close>.  The second asset's cost comes out as \<open>[10, 20]\<close>, not \<open>[20, 10]\<close>.
\<close>

theorem C1_counterexample:
  "all_taxonomies_loop (\<lambda>s. None) demo_heap 1 demo_imfield demo_assets [(''T'', demo_tax)]
      (init_state 2) = Some (Inr demo_final)
   \<and> nums demo_final = [0, 1]
   \<and> py_shuffle 2 [0..<2] = Some [1, 0]
   \<and> nums demo_final \<noteq> [1, 0]"
  using demo_run by (simp add: demo_final_def upt_0_2 py_shuffle_seed2_pair)

section \<open>Rearranged outputs\<close>

lemma mset_map_nth_perm:
  assumes "mset P = mset [0..<length arr]"
  shows "mset (map ((!) arr) P) = mset arr"
proof -
  have "mset (map ((!) arr) P) = image_mset ((!) arr) (mset P)" by simp
  also have "\<dots> = image_mset ((!) arr) (mset [0..<length arr])" using assms by simp
  also have "\<dots> = mset (map ((!) arr) [0..<length arr])" by simp
  also have "\<dots> = mset arr" by (simp add: map_nth)
  finally show ?thesis .
qed

text \<open>
  What a successful call of each function of the engine has emitted: every output is
  traced back to the input it was read from.
\<close>

lemma rearranged_Inr:
  assumes "rearranged d src P = Inr w"
  shows "\<exists>out. w = JArr out \<and> length out = length P
           \<and> (\<forall>i<length P. \<exists>x. map_of d src = Some x \<and> subscript_idx x (P ! i) = Inr (out ! i))"
proof -
  from assms obtain out where
    c: "collect (map (\<lambda>i. ebind (getitem d src) (\<lambda>a. subscript_idx a i)) P) = Inr out"
    and w: "w = JArr out"
    by (auto simp: rearranged_def split: sum.splits)
  from collect_Inr [OF c] have len: "length out = length P"
    and el: "\<forall>i<length P. ebind (getitem d src) (\<lambda>a. subscript_idx a (P ! i)) = Inr (out ! i)"
    by simp_all
  have "\<exists>x. map_of d src = Some x \<and> subscript_idx x (P ! i) = Inr (out ! i)" if "i < length P" for i
  proof -
    from el that have "ebind (getitem d src) (\<lambda>a. subscript_idx a (P ! i)) = Inr (out ! i)" by simp
    from ebind_Inr [OF this] show ?thesis
      by (auto simp: getitem_def split: option.splits)
  qed
  with w len show ?thesis by blast
qed

lemma subscript_idx_JArr: "subscript_idx (JArr arr) q = Inr v \<Longrightarrow> q < length arr \<and> v = arr ! q"
  by (simp split: if_splits)

lemma reindexed_of_array:
  assumes "length out = length P"
      and "\<forall>i<length P. \<exists>x. map_of d src = Some x \<and> subscript_idx x (P ! i) = Inr (out ! i)"
      and "map_of d src = Some (JArr arr)"
  shows "out = map ((!) arr) P \<and> (mset P = mset [0..<length arr] \<longrightarrow> mset out = mset arr)"
proof -
  have "out ! i = map ((!) arr) P ! i" if "i < length P" for i
    using assms(2,3) that subscript_idx_JArr [of arr "P ! i" "out ! i"] by auto
  with assms(1) have "out = map ((!) arr) P"
    by (intro nth_equalityI) simp_all
  with mset_map_nth_perm [of P arr] show ?thesis by simp
qed

lemma rrng_field_emits:
  assumes "rrng_field guard src name d P out = Inr out'" and "(fname, w) \<in> set out'"
  shows "(fname, w) \<in> set out \<or> (fname = name \<and> rearranged d src P = Inr w)"
proof (cases "has_key d guard")
  case False
  with assms show ?thesis by (simp add: rrng_field_def)
next
  case True
  with assms(1) obtain v where v: "rearranged d src P = Inr v"
    and o: "out' = AList.update name v out"
    by (auto simp: rrng_field_def split: sum.splits)
  with assms(2) set_update_subset [of name v out] show ?thesis by auto
qed

lemma tier1_component_emits:
  assumes "tier1_component c P acc = Inr acc'"
  shows "\<exists>d cname flds. c = JObj d \<and> map_of d ''component'' = Some (JStr cname)
           \<and> acc' = AList.update cname (JObj flds) acc
           \<and> (\<forall>fname w. (fname, w) \<in> set flds \<longrightarrow>
                 fname \<in> {''cost'', ''damage_state'', ''recovery''}
                 \<and> rearranged d (if fname = ''recovery'' then ''recovery_realizations'' else fname) P
                     = Inr w)"
proof -
  from assms obtain cname where sk: "subscript_key c ''component'' = Inr (JStr cname)"
    by (auto simp: tier1_component_def split: sum.splits json.splits)
  with assms obtain d where c: "c = JObj d"
    by (auto simp: tier1_component_def split: json.splits)
  with sk have nm: "map_of d ''component'' = Some (JStr cname)"
    by (auto simp: getitem_def split: option.splits)
  have fields: "\<exists>flds. acc' = AList.update cname (JObj flds) acc
           \<and> (\<forall>fname w. (fname, w) \<in> set flds \<longrightarrow>
                 fname \<in> {''cost'', ''damage_state'', ''recovery''}
                 \<and> rearranged d (if fname = ''recovery'' then ''recovery_realizations'' else fname) P
                     = Inr w)"
  proof (cases "cname = ''global''")
    case False
    with assms sk c obtain f1 f2 where
      s1: "rrng_field ''cost'' ''cost'' ''cost'' d P [] = Inr f1" and
      s2: "rrng_field ''damage_state'' ''damage_state'' ''damage_state'' d P f1 = Inr f2" and
      a: "acc' = AList.update cname (JObj f2) acc"
      by (auto simp: tier1_component_def dest!: ebind_Inr)
    have "fname \<in> {''cost'', ''damage_state'', ''recovery''}
          \<and> rearranged d (if fname = ''recovery'' then ''recovery_realizations'' else fname) P = Inr w"
      if "(fname, w) \<in> set f2" for fname w
      using rrng_field_emits [OF s2 that] rrng_field_emits [OF s1, of fname w] by auto
    with a show ?thesis by blast
  next
    case True
    with assms sk c obtain f0 f1 f2 where
      s0: "rrng_field ''recovery'' ''recovery_realizations'' ''recovery'' d P [] = Inr f0" and
      s1: "rrng_field ''cost'' ''cost'' ''cost'' d P f0 = Inr f1" and
      s2: "rrng_field ''damage_state'' ''damage_state'' ''damage_state'' d P f1 = Inr f2" and
      a: "acc' = AList.update cname (JObj f2) acc"
      by (auto simp: tier1_component_def dest!: ebind_Inr)
    have "fname \<in> {''cost'', ''damage_state'', ''recovery''}
          \<and> rearranged d (if fname = ''recovery'' then ''recovery_realizations'' else fname) P = Inr w"
      if "(fname, w) \<in> set f2" for fname w
      using rrng_field_emits [OF s2 that] rrng_field_emits [OF s1, of fname w]
            rrng_field_emits [OF s0, of fname w] by auto
    with a show ?thesis by blast
  qed
  with c nm show ?thesis by blast
qed

lemma tier1_loop_emits:
  assumes "tier1_loop comps P acc = Inr acc'" and "(cname, v) \<in> set acc'"
  shows "(cname, v) \<in> set acc
       \<or> (\<exists>d flds. JObj d \<in> set comps \<and> map_of d ''component'' = Some (JStr cname) \<and> v = JObj flds
           \<and> (\<forall>fname w. (fname, w) \<in> set flds \<longrightarrow>
                 fname \<in> {''cost'', ''damage_state'', ''recovery''}
                 \<and> rearranged d (if fname = ''recovery'' then ''recovery_realizations'' else fname) P
                     = Inr w))"
  using assms
proof (induction comps arbitrary: acc)
  case Nil
  then show ?case by simp
next
  case (Cons c comps)
  from Cons.prems(1) obtain acc1 where s: "tier1_component c P acc = Inr acc1"
    and r: "tier1_loop comps P acc1 = Inr acc'"
    by (auto split: sum.splits)
  from tier1_component_emits [OF s] obtain d cn flds where
    c: "c = JObj d" and nm: "map_of d ''component'' = Some (JStr cn)"
    and a1: "acc1 = AList.update cn (JObj flds) acc"
    and fl: "\<forall>fname w. (fname, w) \<in> set flds \<longrightarrow>
                 fname \<in> {''cost'', ''damage_state'', ''recovery''}
                 \<and> rearranged d (if fname = ''recovery'' then ''recovery_realizations'' else fname) P
                     = Inr w"
    by blast
  from Cons.IH [OF r Cons.prems(2)]
  show ?case
  proof
    assume "(cname, v) \<in> set acc1"
    with a1 set_update_subset [of cn "JObj flds" acc]
    have "(cname, v) = (cn, JObj flds) \<or> (cname, v) \<in> set acc" by auto
    then show ?thesis
    proof
      assume "(cname, v) = (cn, JObj flds)"
      with c nm fl have "JObj d \<in> set (c # comps) \<and> map_of d ''component'' = Some (JStr cname)
          \<and> v = JObj flds
          \<and> (\<forall>fname w. (fname, w) \<in> set flds \<longrightarrow>
                 fname \<in> {''cost'', ''damage_state'', ''recovery''}
                 \<and> rearranged d (if fname = ''recovery'' then ''recovery_realizations'' else fname) P
                     = Inr w)"
        by simp
      then show ?thesis by blast
    next
      assume "(cname, v) \<in> set acc"
      then show ?thesis by simp
    qed
  next
    assume "\<exists>d flds. JObj d \<in> set comps \<and> map_of d ''component'' = Some (JStr cname) \<and> v = JObj flds
           \<and> (\<forall>fname w. (fname, w) \<in> set flds \<longrightarrow>
                 fname \<in> {''cost'', ''damage_state'', ''recovery''}
                 \<and> rearranged d (if fname = ''recovery'' then ''recovery_realizations'' else fname) P
                     = Inr w)"
    then obtain d' flds' where "JObj d' \<in> set (c # comps) \<and> map_of d' ''component'' = Some (JStr cname)
          \<and> v = JObj flds'
          \<and> (\<forall>fname w. (fname, w) \<in> set flds' \<longrightarrow>
                 fname \<in> {''cost'', ''damage_state'', ''recovery''}
                 \<and> rearranged d' (if fname = ''recovery'' then ''recovery_realizations'' else fname) P
                     = Inr w)"
      by auto
    then show ?thesis by blast
  qed
qed

lemma tier1_emits:
  assumes "tier1 rcd P = Inr rrng" and "(cname, v) \<in> set rrng"
  shows "\<exists>cs comps d flds. map_of rcd ''consequences'' = Some cs \<and> iterate cs = Inr comps
           \<and> JObj d \<in> set comps \<and> map_of d ''component'' = Some (JStr cname) \<and> v = JObj flds
           \<and> (\<forall>fname w. (fname, w) \<in> set flds \<longrightarrow>
                 fname \<in> {''cost'', ''damage_state'', ''recovery''}
                 \<and> rearranged d (if fname = ''recovery'' then ''recovery_realizations'' else fname) P
                     = Inr w)"
proof -
  from assms(1) obtain cs comps where g: "map_of rcd ''consequences'' = Some cs"
    and i: "iterate cs = Inr comps" and l: "tier1_loop comps P [] = Inr rrng"
    by (auto simp: tier1_def getitem_def dest!: ebind_Inr split: option.splits)
  from tier1_loop_emits [OF l assms(2)] g i show ?thesis by auto
qed

lemma rlz_loop_emits:
  assumes "rlz_loop g i ks out = Inr rcv" and "map fst out = map rlz_key [0..<i]"
  shows "\<exists>vs. length vs = length ks
           \<and> rcv = out @ map (\<lambda>j. (rlz_key (i + j), vs ! j)) [0..<length ks]
           \<and> (\<forall>j<length ks. \<exists>gd r. g = JObj gd \<and> map_of gd ''recovery'' = Some (JObj r)
                                  \<and> map_of r (rlz_key (ks ! j)) = Some (vs ! j))"
  using assms
proof (induction ks arbitrary: i out)
  case Nil
  then show ?case by simp
next
  case (Cons k ks)
  from Cons.prems(1) obtain v where
    lk: "ebind (subscript_key g ''recovery'') (\<lambda>r. subscript_key r (rlz_key k)) = Inr v" and
    rest: "rlz_loop g (Suc i) ks (AList.update (rlz_key i) v out) = Inr rcv"
    by (auto split: sum.splits)
  from ebind_Inr [OF lk] obtain x where x: "subscript_key g ''recovery'' = Inr x"
    and xv: "subscript_key x (rlz_key k) = Inr v" by blast
  from x obtain gd where g: "g = JObj gd" by (cases g) simp_all
  from xv obtain r where r: "x = JObj r" by (cases x) simp_all
  from x g r have gr: "map_of gd ''recovery'' = Some (JObj r)"
    by (auto simp: getitem_def split: option.splits)
  from xv r have rv: "map_of r (rlz_key k) = Some v"
    by (auto simp: getitem_def split: option.splits)
  have "rlz_key i \<notin> set (map fst out)"
    unfolding Cons.prems(2) by (auto simp: rlz_key_inj)
  then have new: "rlz_key i \<notin> fst ` set out" by simp
  with rest have rest': "rlz_loop g (Suc i) ks (out @ [(rlz_key i, v)]) = Inr rcv"
    by (simp add: update_append_new)
  have keys: "map fst (out @ [(rlz_key i, v)]) = map rlz_key [0..<Suc i]"
    using Cons.prems(2) by simp
  from Cons.IH [OF rest' keys] obtain vs where
    len: "length vs = length ks" and
    rcv: "rcv = (out @ [(rlz_key i, v)]) @ map (\<lambda>j. (rlz_key (Suc i + j), vs ! j)) [0..<length ks]" and
    el: "\<forall>j<length ks. \<exists>gd r. g = JObj gd \<and> map_of gd ''recovery'' = Some (JObj r)
                                  \<and> map_of r (rlz_key (ks ! j)) = Some (vs ! j)"
    by blast
  have m: "map (\<lambda>j. (rlz_key (i + j), (v # vs) ! j)) [0..<length (k # ks)]
         = (rlz_key i, v) # map (\<lambda>j. (rlz_key (Suc i + j), vs ! j)) [0..<length ks]"
    by (simp add: upt_conv_Cons map_Suc_upt [symmetric] del: upt_Suc)
  have e: "\<forall>j<length (k # ks). \<exists>gd r. g = JObj gd \<and> map_of gd ''recovery'' = Some (JObj r)
                                  \<and> map_of r (rlz_key ((k # ks) ! j)) = Some ((v # vs) ! j)"
  proof (intro allI impI)
    fix j assume j: "j < length (k # ks)"
    show "\<exists>gd r. g = JObj gd \<and> map_of gd ''recovery'' = Some (JObj r)
                                  \<and> map_of r (rlz_key ((k # ks) ! j)) = Some ((v # vs) ! j)"
    proof (cases j)
      case 0
      with g gr rv show ?thesis by simp
    next
      case (Suc j')
      with j el show ?thesis by simp
    qed
  qed
  have "length (v # vs) = length (k # ks)" using len by simp
  moreover have "rcv = out @ map (\<lambda>j. (rlz_key (i + j), (v # vs) ! j)) [0..<length (k # ks)]"
    unfolding m using rcv by simp
  ultimately show ?case using e by blast
qed

lemma tier2_emits:
  assumes "tier2 rcd P = Inr rrng"
  shows "\<exists>g flds. map_of rcd ''global'' = Some (JObj g) \<and> rrng = [(''global'', JObj flds)]
           \<and> (\<forall>fname w. (fname, w) \<in> set flds \<longrightarrow>
                 (fname \<in> {''cost'', ''damage_state''} \<and> rearranged g fname P = Inr w)
               \<or> (fname = ''recovery''
                  \<and> (\<exists>rcv. w = JObj rcv \<and> length rcv = length P
                       \<and> (\<forall>i<length P. \<exists>r v. map_of g ''recovery'' = Some (JObj r)
                              \<and> map_of r (rlz_key (P ! i)) = Some v
                              \<and> rcv ! i = (rlz_key i, v)))))"
proof -
  from assms obtain gj g f1 f2 f3 where
    gj: "map_of rcd ''global'' = Some gj" and g: "keys_of gj = Inr g" and
    s1: "rrng_field ''cost'' ''cost'' ''cost'' g P [] = Inr f1" and
    s2: "rrng_field ''damage_state'' ''damage_state'' ''damage_state'' g P f1 = Inr f2" and
    s3: "(if has_key g ''recovery''
          then ebind (rlz_loop gj 0 P []) (\<lambda>rcv. Inr (AList.update ''recovery'' (JObj rcv) f2))
          else Inr f2) = Inr f3" and
    out: "rrng = [(''global'', JObj f3)]"
    by (auto simp: tier2_def getitem_def dest!: ebind_Inr split: option.splits)
  from g have gjo: "gj = JObj g" by (cases gj) simp_all
  have f2: "fname \<in> {''cost'', ''damage_state''} \<and> rearranged g fname P = Inr w"
    if "(fname, w) \<in> set f2" for fname w
    using rrng_field_emits [OF s2 that] rrng_field_emits [OF s1, of fname w] by auto
  have "(fname \<in> {''cost'', ''damage_state''} \<and> rearranged g fname P = Inr w)
      \<or> (fname = ''recovery''
         \<and> (\<exists>rcv. w = JObj rcv \<and> length rcv = length P
               \<and> (\<forall>i<length P. \<exists>r v. map_of g ''recovery'' = Some (JObj r)
                      \<and> map_of r (rlz_key (P ! i)) = Some v
                      \<and> rcv ! i = (rlz_key i, v))))"
    if m: "(fname, w) \<in> set f3" for fname w
  proof (cases "has_key g ''recovery''")
    case False
    with s3 have "f3 = f2" by simp
    with m f2 show ?thesis by simp
  next
    case True
    with s3 obtain rcv where l: "rlz_loop gj 0 P [] = Inr rcv"
      and f3: "f3 = AList.update ''recovery'' (JObj rcv) f2"
      by (auto dest!: ebind_Inr)
    from m f3 set_update_subset [of "''recovery''" "JObj rcv" f2]
    have "(fname, w) = (''recovery'', JObj rcv) \<or> (fname, w) \<in> set f2" by auto
    then show ?thesis
    proof
      assume "(fname, w) \<in> set f2"
      with f2 show ?thesis by simp
    next
      assume eq: "(fname, w) = (''recovery'', JObj rcv)"
      from rlz_loop_emits [OF l] obtain vs where
        len: "length vs = length P" and
        rcv: "rcv = map (\<lambda>j. (rlz_key j, vs ! j)) [0..<length P]" and
        el: "\<forall>j<length P. \<exists>gd r. gj = JObj gd \<and> map_of gd ''recovery'' = Some (JObj r)
                                  \<and> map_of r (rlz_key (P ! j)) = Some (vs ! j)"
        by auto
      have "\<exists>r v. map_of g ''recovery'' = Some (JObj r) \<and> map_of r (rlz_key (P ! i)) = Some v
                   \<and> rcv ! i = (rlz_key i, v)" if "i < length P" for i
        using el that gjo rcv by auto
      moreover have "length rcv = length P" using rcv by simp
      ultimately show ?thesis using eq by auto
    qed
  qed
  with gj gjo out show ?thesis by blast
qed

lemma recovery_mset:
  assumes "length rcv = length P"
      and "\<forall>i<length P. \<exists>v. map_of r (rlz_key (P ! i)) = Some v \<and> rcv ! i = (rlz_key i, v)"
      and "mset P = mset [0..<length r]"
      and "mset (map fst r) = mset (map rlz_key [0..<length r])"
  shows "mset (map snd rcv) = mset (map snd r)"
proof -
  have "map snd rcv = map (\<lambda>k. the (map_of r (rlz_key k))) P"
    using assms(1,2) by (intro nth_equalityI) auto
  then have a: "mset (map snd rcv) = image_mset (\<lambda>k. the (map_of r (rlz_key k))) (mset [0..<length r])"
    using assms(3) by (simp flip: assms(3))
  have "distinct (map rlz_key [0..<length r])"
    by (simp add: distinct_map inj_on_def rlz_key_inj)
  with assms(4) have d: "distinct (map fst r)"
    by (metis mset_eq_imp_distinct_iff)
  have "map snd r = map (\<lambda>k. the (map_of r k)) (map fst r)"
    using d by (rule map_snd_distinct)
  then have "mset (map snd r) = image_mset (\<lambda>k. the (map_of r k)) (mset (map fst r))"
    by (metis mset_map)
  also have "\<dots> = image_mset (\<lambda>k. the (map_of r k)) (mset (map rlz_key [0..<length r]))"
    using assms(4) by simp
  also have "\<dots> = image_mset (\<lambda>k. the (map_of r (rlz_key k))) (mset [0..<length r])"
    by (simp add: image_mset.compositionality comp_def)
  finally show ?thesis using a by simp
qed

lemma results_update_emits:
  assumes "(e, assets) \<in> set (results_update results k name rrng)" and "(nm, r) \<in> set assets"
  shows "(\<exists>assets0. (e, assets0) \<in> set results \<and> (nm, r) \<in> set assets0)
       \<or> (e = k \<and> nm = name \<and> r = rrng)"
proof (cases "map_of results k")
  case None
  with assms(1) set_update_subset [of k "[(name, rrng)]" results]
  have "(e, assets) = (k, [(name, rrng)]) \<or> (e, assets) \<in> set results"
    by (auto simp: results_update_def)
  with assms(2) show ?thesis by auto
next
  case (Some r0)
  with assms(1) set_update_subset [of k "AList.update name rrng r0" results]
  have "(e, assets) = (k, AList.update name rrng r0) \<or> (e, assets) \<in> set results"
    by (auto simp: results_update_def)
  then show ?thesis
  proof
    assume eq: "(e, assets) = (k, AList.update name rrng r0)"
    with assms(2) set_update_subset [of name rrng r0]
    have "(nm, r) = (name, rrng) \<or> (nm, r) \<in> set r0" by auto
    moreover from Some have "(k, r0) \<in> set results" by (rule map_of_SomeD)
    ultimately show ?thesis using eq by auto
  next
    assume "(e, assets) \<in> set results"
    with assms(2) show ?thesis by auto
  qed
qed

lemma events_loop_emits:
  assumes "events_loop i evs ims name levels recs P results = Inr results'"
      and "(e, assets) \<in> set results'" and "(nm, rrng) \<in> set assets"
  shows "(\<exists>assets0. (e, assets0) \<in> set results \<and> (nm, rrng) \<in> set assets0)
       \<or> (e \<in> str_nat ` set evs \<and> nm = name
          \<and> (\<exists>rcd. rcd \<in> set recs \<and> asset_cons_rrng rcd P = Inr rrng))"
  using assms(1)
proof (induction evs arbitrary: i results)
  case Nil
  with assms(2,3) show ?case by auto
next
  case (Cons ev evs)
  from Cons.prems obtain idx r1 where
    idx: "idx < length recs" and
    r1: "asset_cons_rrng (recs ! idx) P = Inr r1" and
    rest: "events_loop (Suc i) evs ims name levels recs P
             (results_update results (str_nat ev) name r1) = Inr results'"
    by (auto split: if_splits sum.splits)
  from Cons.IH [OF rest]
  show ?case
  proof
    assume "\<exists>assets0. (e, assets0) \<in> set (results_update results (str_nat ev) name r1)
               \<and> (nm, rrng) \<in> set assets0"
    then obtain assets0 where "(e, assets0) \<in> set (results_update results (str_nat ev) name r1)"
      "(nm, rrng) \<in> set assets0" by blast
    from results_update_emits [OF this]
    show ?thesis
    proof
      assume "\<exists>assets0. (e, assets0) \<in> set results \<and> (nm, rrng) \<in> set assets0"
      then show ?thesis by simp
    next
      assume "e = str_nat ev \<and> nm = name \<and> rrng = r1"
      with r1 idx have "e \<in> str_nat ` set (ev # evs) \<and> nm = name
          \<and> recs ! idx \<in> set recs \<and> asset_cons_rrng (recs ! idx) P = Inr rrng"
        by simp
      then show ?thesis by blast
    qed
  next
    assume "e \<in> str_nat ` set evs \<and> nm = name
          \<and> (\<exists>rcd. rcd \<in> set recs \<and> asset_cons_rrng rcd P = Inr rrng)"
    then show ?thesis by auto
  qed
qed

lemma imlevels_keys:
  assumes "get_cons_imlevels f recs = Inr levels" and "rcd \<in> set recs"
  shows "map_of rcd ''im_level'' \<noteq> None"
proof -
  from assms(2) obtain i where i: "i < length recs" "recs ! i = rcd"
    by (auto simp: in_set_conv_nth)
  from collect_Inr [OF assms(1) [unfolded get_cons_imlevels_def]] i
  have "ebind (getitem rcd ''im_level'') (py_float f) = Inr (levels ! i)" by auto
  from ebind_Inr [OF this] show ?thesis
    by (auto simp: getitem_def split: option.splits)
qed

lemma asset_cons_rrng_tier1:
  assumes "asset_cons_rrng rcd P = Inr rrng" and "map_of rcd ''im_level'' \<noteq> None"
  shows "1 < dict_len rcd"
proof (rule ccontr)
  assume n: "\<not> 1 < dict_len rcd"
  with assms(1) have "tier2 rcd P = Inr rrng" by (simp add: asset_cons_rrng_def)
  then have "map_of rcd ''global'' \<noteq> None"
    by (auto simp: tier2_def getitem_def dest!: ebind_Inr split: option.splits)
  from dict_len_two [OF this assms(2)] n show False by simp
qed

lemma asset_step_emits:
  assumes "asset_step f h ev rows tc name a P results descr = Inr (results', descr')"
      and "(e, assets) \<in> set results'" and "(nm, rrng) \<in> set assets"
  shows "(\<exists>assets0. (e, assets0) \<in> set results \<and> (nm, rrng) \<in> set assets0)
       \<or> (e = str_nat ev \<and> nm = name
          \<and> (\<exists>rcd. rcd \<in> set (iml_consequences tc) \<and> 1 < dict_len rcd
                   \<and> asset_cons_rrng rcd P = Inr rrng))"
proof -
  from assms(1) have "\<exists>ims levels. get_cons_imlevels f (iml_consequences tc) = Inr levels
      \<and> get_consequences_by_event [ev] ims name levels (iml_consequences tc) P results
           = Inr results'"
    by (auto simp: asset_step_def split: option.splits list.splits sum.splits)
  then obtain ims levels where
    lv: "get_cons_imlevels f (iml_consequences tc) = Inr levels" and
    ev: "get_consequences_by_event [ev] ims name levels (iml_consequences tc) P results
           = Inr results'"
    by blast
  from events_loop_emits [OF ev [unfolded get_consequences_by_event_def] assms(2,3)]
  show ?thesis
  proof
    assume "\<exists>assets0. (e, assets0) \<in> set results \<and> (nm, rrng) \<in> set assets0"
    then show ?thesis by simp
  next
    assume "e \<in> str_nat ` set [ev] \<and> nm = name
          \<and> (\<exists>rcd. rcd \<in> set (iml_consequences tc) \<and> asset_cons_rrng rcd P = Inr rrng)"
    then obtain rcd where e: "e = str_nat ev" "nm = name" and
      rc: "rcd \<in> set (iml_consequences tc)" "asset_cons_rrng rcd P = Inr rrng" by auto
    from asset_cons_rrng_tier1 [OF rc(2) imlevels_keys [OF lv rc(1)]] e rc
    show ?thesis by blast
  qed
qed

lemma all_assets_loop_emits:
  assumes "all_assets_loop f h ev rows tc xs st = Some (Inr st')"
      and "mset (nums st) = mset [0..<N]"
  shows "mset (nums st') = mset [0..<N]
       \<and> (\<forall>e assets nm rrng. (e, assets) \<in> set (res st') \<longrightarrow> (nm, rrng) \<in> set assets \<longrightarrow>
            (\<exists>assets0. (e, assets0) \<in> set (res st) \<and> (nm, rrng) \<in> set assets0)
          \<or> (e = str_nat ev \<and> nm \<in> fst ` set xs
             \<and> (\<exists>P rcd. mset P = mset [0..<N] \<and> rcd \<in> set (iml_consequences tc)
                      \<and> 1 < dict_len rcd \<and> asset_cons_rrng rcd P = Inr rrng)))"
  using assms
proof (induction xs arbitrary: st)
  case Nil
  then show ?case by auto
next
  case (Cons x xs)
  obtain name a where x: "x = (name, a)" by (cases x)
  from Cons.prems(1) x obtain P results' descr' where
    sh: "py_shuffle (rnd_seed st + 1) (nums st) = Some P" and
    stp: "asset_step f h ev rows tc name a P (res st) (asset_ds_description st)
            = Inr (results', descr')" and
    rest: "all_assets_loop f h ev rows tc xs
             \<lparr>rnd_seed = rnd_seed st + 1, nums = P, res = results',
              asset_ds_description = descr'\<rparr> = Some (Inr st')"
    by (auto split: option.splits sum.splits prod.splits)
  from py_shuffle_mset [OF sh] Cons.prems(2) have perm: "mset P = mset [0..<N]" by simp
  let ?st1 = "\<lparr>rnd_seed = rnd_seed st + 1, nums = P, res = results',
              asset_ds_description = descr'\<rparr>"
  have "mset (nums ?st1) = mset [0..<N]" using perm by simp
  from Cons.IH [OF rest this]
  have n': "mset (nums st') = mset [0..<N]" and
    ih: "\<And>e assets nm rrng. (e, assets) \<in> set (res st') \<Longrightarrow> (nm, rrng) \<in> set assets \<Longrightarrow>
            (\<exists>assets0. (e, assets0) \<in> set results' \<and> (nm, rrng) \<in> set assets0)
          \<or> (e = str_nat ev \<and> nm \<in> fst ` set xs
             \<and> (\<exists>P rcd. mset P = mset [0..<N] \<and> rcd \<in> set (iml_consequences tc)
                      \<and> 1 < dict_len rcd \<and> asset_cons_rrng rcd P = Inr rrng))"
    by auto
  have "(\<exists>assets0. (e, assets0) \<in> set (res st) \<and> (nm, rrng) \<in> set assets0)
          \<or> (e = str_nat ev \<and> nm \<in> fst ` set (x # xs)
             \<and> (\<exists>P rcd. mset P = mset [0..<N] \<and> rcd \<in> set (iml_consequences tc)
                      \<and> 1 < dict_len rcd \<and> asset_cons_rrng rcd P = Inr rrng))"
    if m: "(e, assets) \<in> set (res st')" "(nm, rrng) \<in> set assets" for e assets nm rrng
    using ih [OF m]
  proof
    assume "\<exists>assets0. (e, assets0) \<in> set results' \<and> (nm, rrng) \<in> set assets0"
    then obtain assets0 where "(e, assets0) \<in> set results'" "(nm, rrng) \<in> set assets0" by blast
    from asset_step_emits [OF stp this] perm x show ?thesis by auto
  next
    assume "e = str_nat ev \<and> nm \<in> fst ` set xs
             \<and> (\<exists>P rcd. mset P = mset [0..<N] \<and> rcd \<in> set (iml_consequences tc)
                      \<and> 1 < dict_len rcd \<and> asset_cons_rrng rcd P = Inr rrng)"
    then show ?thesis by auto
  qed
  with n' show ?case by blast
qed

lemma all_taxonomies_loop_emits:
  assumes "all_taxonomies_loop f h ev imf ex taxes st = Some (Inr st')"
      and "mset (nums st) = mset [0..<N]"
  shows "mset (nums st') = mset [0..<N]
       \<and> (\<forall>e assets nm rrng. (e, assets) \<in> set (res st') \<longrightarrow> (nm, rrng) \<in> set assets \<longrightarrow>
            (\<exists>assets0. (e, assets0) \<in> set (res st) \<and> (nm, rrng) \<in> set assets0)
          \<or> (e = str_nat ev
             \<and> (\<exists>P tax tc xs rcd. mset P = mset [0..<N] \<and> (tax, tc) \<in> set taxes
                      \<and> map_of ex tax = Some xs \<and> nm \<in> fst ` set xs
                      \<and> rcd \<in> set (iml_consequences tc)
                      \<and> 1 < dict_len rcd \<and> asset_cons_rrng rcd P = Inr rrng)))"
  using assms
proof (induction taxes arbitrary: st)
  case Nil
  then show ?case by auto
next
  case (Cons t taxes)
  obtain tax_key tc where t: "t = (tax_key, tc)" by (cases t)
  from Cons.prems(1) t obtain xs st1 where
    g: "map_of ex tax_key = Some xs" and
    a: "all_assets_loop f h ev (filter (\<lambda>r. gmf_eid r = ev) (gmf_data imf)) tc xs st
          = Some (Inr st1)" and
    rest: "all_taxonomies_loop f h ev imf ex taxes st1 = Some (Inr st')"
    by (auto simp: getitem_def split: if_splits option.splits sum.splits)
  from all_assets_loop_emits [OF a Cons.prems(2)]
  have n1: "mset (nums st1) = mset [0..<N]" and
    a1: "\<And>e assets nm rrng. (e, assets) \<in> set (res st1) \<Longrightarrow> (nm, rrng) \<in> set assets \<Longrightarrow>
            (\<exists>assets0. (e, assets0) \<in> set (res st) \<and> (nm, rrng) \<in> set assets0)
          \<or> (e = str_nat ev \<and> nm \<in> fst ` set xs
             \<and> (\<exists>P rcd. mset P = mset [0..<N] \<and> rcd \<in> set (iml_consequences tc)
                      \<and> 1 < dict_len rcd \<and> asset_cons_rrng rcd P = Inr rrng))"
    by auto
  from Cons.IH [OF rest n1]
  have n': "mset (nums st') = mset [0..<N]" and
    ih: "\<And>e assets nm rrng. (e, assets) \<in> set (res st') \<Longrightarrow> (nm, rrng) \<in> set assets \<Longrightarrow>
            (\<exists>assets0. (e, assets0) \<in> set (res st1) \<and> (nm, rrng) \<in> set assets0)
          \<or> (e = str_nat ev
             \<and> (\<exists>P tax tc xs rcd. mset P = mset [0..<N] \<and> (tax, tc) \<in> set taxes
                      \<and> map_of ex tax = Some xs \<and> nm \<in> fst ` set xs
                      \<and> rcd \<in> set (iml_consequences tc)
                      \<and> 1 < dict_len rcd \<and> asset_cons_rrng rcd P = Inr rrng))"
    by auto
  have "(\<exists>assets0. (e, assets0) \<in> set (res st) \<and> (nm, rrng) \<in> set assets0)
          \<or> (e = str_nat ev
             \<and> (\<exists>P tax tc xs rcd. mset P = mset [0..<N] \<and> (tax, tc) \<in> set (t # taxes)
                      \<and> map_of ex tax = Some xs \<and> nm \<in> fst ` set xs
                      \<and> rcd \<in> set (iml_consequences tc)
                      \<and> 1 < dict_len rcd \<and> asset_cons_rrng rcd P = Inr rrng))"
    if m: "(e, assets) \<in> set (res st')" "(nm, rrng) \<in> set assets" for e assets nm rrng
    using ih [OF m]
  proof
    assume "\<exists>assets0. (e, assets0) \<in> set (res st1) \<and> (nm, rrng) \<in> set assets0"
    then obtain assets0 where "(e, assets0) \<in> set (res st1)" "(nm, rrng) \<in> set assets0" by blast
    from a1 [OF this] show ?thesis
    proof
      assume "\<exists>assets0. (e, assets0) \<in> set (res st) \<and> (nm, rrng) \<in> set assets0"
      then show ?thesis by simp
    next
      assume "e = str_nat ev \<and> nm \<in> fst ` set xs
             \<and> (\<exists>P rcd. mset P = mset [0..<N] \<and> rcd \<in> set (iml_consequences tc)
                      \<and> 1 < dict_len rcd \<and> asset_cons_rrng rcd P = Inr rrng)"
      then obtain P rcd where "e = str_nat ev" "nm \<in> fst ` set xs" "mset P = mset [0..<N]"
        "rcd \<in> set (iml_consequences tc)" "1 < dict_len rcd" "asset_cons_rrng rcd P = Inr rrng"
        by blast
      with g t have "e = str_nat ev \<and> mset P = mset [0..<N] \<and> (tax_key, tc) \<in> set (t # taxes)
                      \<and> map_of ex tax_key = Some xs \<and> nm \<in> fst ` set xs
                      \<and> rcd \<in> set (iml_consequences tc)
                      \<and> 1 < dict_len rcd \<and> asset_cons_rrng rcd P = Inr rrng"
        by simp
      then show ?thesis by blast
    qed
  next
    assume "e = str_nat ev
             \<and> (\<exists>P tax tc xs rcd. mset P = mset [0..<N] \<and> (tax, tc) \<in> set taxes
                      \<and> map_of ex tax = Some xs \<and> nm \<in> fst ` set xs
                      \<and> rcd \<in> set (iml_consequences tc)
                      \<and> 1 < dict_len rcd \<and> asset_cons_rrng rcd P = Inr rrng)"
    then obtain P tax tc' xs' rcd where k: "e = str_nat ev" "mset P = mset [0..<N]"
        "(tax, tc') \<in> set taxes"
        "map_of ex tax = Some xs'" "nm \<in> fst ` set xs'"
        "rcd \<in> set (iml_consequences tc')"
        "1 < dict_len rcd" "asset_cons_rrng rcd P = Inr rrng"
      by blast
    from k(3) have "(tax, tc') \<in> set (t # taxes)" by simp
    with k show ?thesis by blast
  qed
  with n' show ?case by blast
qed

lemma engine_emits:
  assumes "get_consequences_by_event_all_assets f h ev imf cons N ex = Some (Inr (results, descr))"
      and "(e, assets) \<in> set results" and "(nm, rrng) \<in> set assets"
  shows "e = str_nat ev
       \<and> (\<exists>P tax tc xs rcd. mset P = mset [0..<N] \<and> (tax, tc) \<in> set cons
             \<and> map_of ex tax = Some xs \<and> nm \<in> fst ` set xs
             \<and> rcd \<in> set (iml_consequences tc)
             \<and> 1 < dict_len rcd \<and> asset_cons_rrng rcd P = Inr rrng)"
proof -
  from assms(1) obtain st where
    run: "all_taxonomies_loop f h ev imf ex cons (init_state N) = Some (Inr st)" and
    r: "results = res st"
    by (auto simp: get_consequences_by_event_all_assets_def split: option.splits sum.splits)
  have "mset (nums (init_state N)) = mset [0..<N]" by (simp add: init_state_def)
  from all_taxonomies_loop_emits [OF run this] assms(2,3) r
  show ?thesis by (auto simp: init_state_def)
qed

lemma long_run:
  "get_consequences_by_event_all_assets (\<lambda>s. None) demo_heap 1 demo_imfield [(''T'', long_tax)] 2
      [(''T'', [(''a1'', demo_a1)])]
   = Some (Inr ([(''1'', [(''a1'', [(''global'', JObj [(''cost'', JArr [JNum 20, JNum 10])])])])],
                [(''a1'', [(''component'', JStr ''global'')])]))"
  by (simp add: get_consequences_by_event_all_assets_def init_state_def upt_0_2
        py_shuffle_seed1_pair asset_step_def demo_heap_def long_tax_def demo_a1_def
        demo_imfield_def get_cons_imlevels_def lower_pga
        py_float_def getitem_def get_consequences_by_event_def closest_im_def argmin_def
        asset_cons_rrng_def dict_len_def tier1_def tier1_component_def rrng_field_def has_key_def
        rearranged_def results_update_def str_nat_1 find_cons_idx_def)

lemma demo_engine:
  "get_consequences_by_event_all_assets (\<lambda>s. None) demo_heap 1 demo_imfield [(''T'', demo_tax)] 2
      demo_assets
   = Some (Inr (res demo_final, asset_ds_description demo_final))"
  unfolding get_consequences_by_event_all_assets_def demo_run by simp

text \<open>
  Claim C10, as amended.  Every entry that \<^verbatim>\<open>get_consequences_by_event_all_assets\<close>
  returns, for the event and an asset of the exposure, is the output of
  \<open>asset_cons_rrng\<close> for a record of the asset's taxonomy and an index list \<open>Q\<close> that is a
  permutation of \<open>[0..<Nrealizations]\<close>; the record has two or more keys, so it is a
  Tier I output.  In a Tier I output every component comes from a component \<open>d\<close> of the
  record with that name, and each of its fields (\<open>cost\<close>, \<open>damage_state\<close>, \<open>recovery\<close>)
  is an array \<open>out\<close> of as many entries as the index list \<open>P\<close>, with
  \<open>out[i] = d[src][P[i]]\<close> (\<open>src\<close> is the field's name, and \<open>recovery_realizations\<close>
  for \<open>recovery\<close>); when the input is an array of as many entries as \<open>P\<close> permutes, the
  output has the same multiset of values.  In a Tier II output, which
  \<^verbatim>\<open>get_consequences_by_event\<close> emits for a record of a single key, the same holds of
  \<open>cost\<close> and \<open>damage_state\<close> under \<open>global\<close>, and \<open>recovery\<close> is a dict of as many
  entries as \<open>P\<close>, entry \<open>i\<close> being the key \<open>rlz_(i+1)\<close> with the value the input holds
  under \<open>rlz_(P[i]+1)\<close>; when the input holds exactly the keys \<open>rlz_1\<close>, ...,
  \<open>rlz_N\<close> and \<open>P\<close> permutes \<open>[0..<N]\<close>, the values have the same multiset.
\<close>

theorem C10_rearranged_outputs:
  "(get_consequences_by_event_all_assets f h ev imf cons N ex = Some (Inr (results, descr))
      \<and> (e, assets) \<in> set results \<and> (asset_name, asset_rrng) \<in> set assets
     \<longrightarrow> e = str_nat ev
         \<and> (\<exists>Q tax tc xs r. mset Q = mset [0..<N] \<and> length Q = N
               \<and> (tax, tc) \<in> set cons \<and> map_of ex tax = Some xs \<and> asset_name \<in> fst ` set xs
               \<and> r \<in> set (iml_consequences tc) \<and> 1 < dict_len r
               \<and> asset_cons_rrng r Q = Inr asset_rrng))
   \<and> (1 < dict_len rcd \<and> asset_cons_rrng rcd P = Inr rrng \<and> (cname, v) \<in> set rrng
     \<longrightarrow> (\<exists>cs comps d flds.
            map_of rcd ''consequences'' = Some cs \<and> iterate cs = Inr comps
          \<and> JObj d \<in> set comps \<and> map_of d ''component'' = Some (JStr cname) \<and> v = JObj flds
          \<and> (\<forall>fname w. (fname, w) \<in> set flds \<longrightarrow>
                fname \<in> {''cost'', ''damage_state'', ''recovery''}
              \<and> (\<exists>out. w = JArr out \<and> length out = length P
                   \<and> (\<forall>i<length P. \<exists>x.
                         map_of d (if fname = ''recovery'' then ''recovery_realizations'' else fname)
                           = Some x
                         \<and> subscript_idx x (P ! i) = Inr (out ! i))
                   \<and> (\<forall>arr.
                         map_of d (if fname = ''recovery'' then ''recovery_realizations'' else fname)
                           = Some (JArr arr)
                         \<longrightarrow> out = map ((!) arr) P
                             \<and> (mset P = mset [0..<length arr] \<longrightarrow> mset out = mset arr))))))
   \<and> (dict_len rcd \<le> 1 \<and> asset_cons_rrng rcd P = Inr rrng
     \<longrightarrow> (\<exists>g flds.
            map_of rcd ''global'' = Some (JObj g) \<and> rrng = [(''global'', JObj flds)]
          \<and> (\<forall>fname w. (fname, w) \<in> set flds \<longrightarrow>
                (fname \<in> {''cost'', ''damage_state''}
                 \<and> (\<exists>out. w = JArr out \<and> length out = length P
                      \<and> (\<forall>i<length P. \<exists>x. map_of g fname = Some x
                                            \<and> subscript_idx x (P ! i) = Inr (out ! i))
                      \<and> (\<forall>arr. map_of g fname = Some (JArr arr)
                            \<longrightarrow> out = map ((!) arr) P
                                \<and> (mset P = mset [0..<length arr] \<longrightarrow> mset out = mset arr))))
              \<or> (fname = ''recovery''
                 \<and> (\<exists>rcv. w = JObj rcv \<and> length rcv = length P
                      \<and> (\<forall>i<length P. \<exists>r v. map_of g ''recovery'' = Some (JObj r)
                                            \<and> map_of r (rlz_key (P ! i)) = Some v
                                            \<and> rcv ! i = (rlz_key i, v))
                      \<and> (\<forall>r. map_of g ''recovery'' = Some (JObj r)
                              \<and> mset (map fst r) = mset (map rlz_key [0..<length r])
                              \<and> mset P = mset [0..<length r]
                            \<longrightarrow> mset (map snd rcv) = mset (map snd r)))))))"
proof (intro conjI impI)
  assume a: "get_consequences_by_event_all_assets f h ev imf cons N ex = Some (Inr (results, descr))
      \<and> (e, assets) \<in> set results \<and> (asset_name, asset_rrng) \<in> set assets"
  then have run: "get_consequences_by_event_all_assets f h ev imf cons N ex
                    = Some (Inr (results, descr))"
    and m: "(e, assets) \<in> set results" "(asset_name, asset_rrng) \<in> set assets" by simp_all
  from engine_emits [OF run m] show "e = str_nat ev" by simp
  from engine_emits [OF run m] obtain Q tax tc xs r where
    k: "mset Q = mset [0..<N]" "(tax, tc) \<in> set cons" "map_of ex tax = Some xs"
       "asset_name \<in> fst ` set xs" "r \<in> set (iml_consequences tc)" "1 < dict_len r"
       "asset_cons_rrng r Q = Inr asset_rrng"
    by blast
  from mset_eq_length [OF k(1)] have "length Q = N" by simp
  with k show "\<exists>Q tax tc xs r. mset Q = mset [0..<N] \<and> length Q = N
               \<and> (tax, tc) \<in> set cons \<and> map_of ex tax = Some xs \<and> asset_name \<in> fst ` set xs
               \<and> r \<in> set (iml_consequences tc) \<and> 1 < dict_len r
               \<and> asset_cons_rrng r Q = Inr asset_rrng"
    by blast
next
  assume a: "1 < dict_len rcd \<and> asset_cons_rrng rcd P = Inr rrng \<and> (cname, v) \<in> set rrng"
  then have t: "tier1 rcd P = Inr rrng" and m: "(cname, v) \<in> set rrng"
    by (auto simp: asset_cons_rrng_def)
  from tier1_emits [OF t m] obtain cs comps d flds where
    k: "map_of rcd ''consequences'' = Some cs" "iterate cs = Inr comps" "JObj d \<in> set comps"
       "map_of d ''component'' = Some (JStr cname)" "v = JObj flds" and
    fl: "\<And>fname w. (fname, w) \<in> set flds \<Longrightarrow>
                 fname \<in> {''cost'', ''damage_state'', ''recovery''}
                 \<and> rearranged d (if fname = ''recovery'' then ''recovery_realizations'' else fname) P
                     = Inr w"
    by blast
  have "fname \<in> {''cost'', ''damage_state'', ''recovery''}
              \<and> (\<exists>out. w = JArr out \<and> length out = length P
                   \<and> (\<forall>i<length P. \<exists>x.
                         map_of d (if fname = ''recovery'' then ''recovery_realizations'' else fname)
                           = Some x
                         \<and> subscript_idx x (P ! i) = Inr (out ! i))
                   \<and> (\<forall>arr.
                         map_of d (if fname = ''recovery'' then ''recovery_realizations'' else fname)
                           = Some (JArr arr)
                         \<longrightarrow> out = map ((!) arr) P
                             \<and> (mset P = mset [0..<length arr] \<longrightarrow> mset out = mset arr)))"
    if mem: "(fname, w) \<in> set flds" for fname w
  proof -
    let ?src = "if fname = ''recovery'' then ''recovery_realizations'' else fname"
    from fl [OF mem] have n: "fname \<in> {''cost'', ''damage_state'', ''recovery''}"
      and re: "rearranged d ?src P = Inr w" by simp_all
    from rearranged_Inr [OF re] obtain out where
      o: "w = JArr out" "length out = length P"
         "\<forall>i<length P. \<exists>x. map_of d ?src = Some x \<and> subscript_idx x (P ! i) = Inr (out ! i)"
      by blast
    have "\<forall>arr. map_of d ?src = Some (JArr arr)
             \<longrightarrow> out = map ((!) arr) P
                 \<and> (mset P = mset [0..<length arr] \<longrightarrow> mset out = mset arr)"
      using reindexed_of_array [OF o(2,3)] by blast
    with n o show ?thesis by blast
  qed
  with k show "\<exists>cs comps d flds.
            map_of rcd ''consequences'' = Some cs \<and> iterate cs = Inr comps
          \<and> JObj d \<in> set comps \<and> map_of d ''component'' = Some (JStr cname) \<and> v = JObj flds
          \<and> (\<forall>fname w. (fname, w) \<in> set flds \<longrightarrow>
                fname \<in> {''cost'', ''damage_state'', ''recovery''}
              \<and> (\<exists>out. w = JArr out \<and> length out = length P
                   \<and> (\<forall>i<length P. \<exists>x.
                         map_of d (if fname = ''recovery'' then ''recovery_realizations'' else fname)
                           = Some x
                         \<and> subscript_idx x (P ! i) = Inr (out ! i))
                   \<and> (\<forall>arr.
                         map_of d (if fname = ''recovery'' then ''recovery_realizations'' else fname)
                           = Some (JArr arr)
                         \<longrightarrow> out = map ((!) arr) P
                             \<and> (mset P = mset [0..<length arr] \<longrightarrow> mset out = mset arr))))"
    by blast
next
  assume a: "dict_len rcd \<le> 1 \<and> asset_cons_rrng rcd P = Inr rrng"
  then have t: "tier2 rcd P = Inr rrng" by (auto simp: asset_cons_rrng_def)
  from tier2_emits [OF t] obtain g flds where
    k: "map_of rcd ''global'' = Some (JObj g)" "rrng = [(''global'', JObj flds)]" and
    fl: "\<And>fname w. (fname, w) \<in> set flds \<Longrightarrow>
                 (fname \<in> {''cost'', ''damage_state''} \<and> rearranged g fname P = Inr w)
               \<or> (fname = ''recovery''
                  \<and> (\<exists>rcv. w = JObj rcv \<and> length rcv = length P
                       \<and> (\<forall>i<length P. \<exists>r v. map_of g ''recovery'' = Some (JObj r)
                              \<and> map_of r (rlz_key (P ! i)) = Some v
                              \<and> rcv ! i = (rlz_key i, v))))"
    by blast
  have "(fname \<in> {''cost'', ''damage_state''}
                 \<and> (\<exists>out. w = JArr out \<and> length out = length P
                      \<and> (\<forall>i<length P. \<exists>x. map_of g fname = Some x
                                            \<and> subscript_idx x (P ! i) = Inr (out ! i))
                      \<and> (\<forall>arr. map_of g fname = Some (JArr arr)
                            \<longrightarrow> out = map ((!) arr) P
                                \<and> (mset P = mset [0..<length arr] \<longrightarrow> mset out = mset arr))))
              \<or> (fname = ''recovery''
                 \<and> (\<exists>rcv. w = JObj rcv \<and> length rcv = length P
                      \<and> (\<forall>i<length P. \<exists>r v. map_of g ''recovery'' = Some (JObj r)
                                            \<and> map_of r (rlz_key (P ! i)) = Some v
                                            \<and> rcv ! i = (rlz_key i, v))
                      \<and> (\<forall>r. map_of g ''recovery'' = Some (JObj r)
                              \<and> mset (map fst r) = mset (map rlz_key [0..<length r])
                              \<and> mset P = mset [0..<length r]
                            \<longrightarrow> mset (map snd rcv) = mset (map snd r))))"
    if mem: "(fname, w) \<in> set flds" for fname w
    using fl [OF mem]
  proof
    assume "fname \<in> {''cost'', ''damage_state''} \<and> rearranged g fname P = Inr w"
    then have n: "fname \<in> {''cost'', ''damage_state''}" and re: "rearranged g fname P = Inr w"
      by simp_all
    from rearranged_Inr [OF re] obtain out where
      o: "w = JArr out" "length out = length P"
         "\<forall>i<length P. \<exists>x. map_of g fname = Some x \<and> subscript_idx x (P ! i) = Inr (out ! i)"
      by blast
    have "\<forall>arr. map_of g fname = Some (JArr arr)
             \<longrightarrow> out = map ((!) arr) P
                 \<and> (mset P = mset [0..<length arr] \<longrightarrow> mset out = mset arr)"
      using reindexed_of_array [OF o(2,3)] by blast
    with n o show ?thesis by blast
  next
    assume "fname = ''recovery''
                  \<and> (\<exists>rcv. w = JObj rcv \<and> length rcv = length P
                       \<and> (\<forall>i<length P. \<exists>r v. map_of g ''recovery'' = Some (JObj r)
                              \<and> map_of r (rlz_key (P ! i)) = Some v
                              \<and> rcv ! i = (rlz_key i, v)))"
    then obtain rcv where n: "fname = ''recovery''" and
      o: "w = JObj rcv" "length rcv = length P"
         "\<forall>i<length P. \<exists>r v. map_of g ''recovery'' = Some (JObj r)
                              \<and> map_of r (rlz_key (P ! i)) = Some v
                              \<and> rcv ! i = (rlz_key i, v)"
      by blast
    have "mset (map snd rcv) = mset (map snd r)"
      if r: "map_of g ''recovery'' = Some (JObj r)
             \<and> mset (map fst r) = mset (map rlz_key [0..<length r])
             \<and> mset P = mset [0..<length r]" for r
    proof -
      have "\<forall>i<length P. \<exists>v. map_of r (rlz_key (P ! i)) = Some v \<and> rcv ! i = (rlz_key i, v)"
        using o(3) r by auto
      with o(2) r show ?thesis by (intro recovery_mset [of rcv P r]) simp_all
    qed
    with n o show ?thesis by blast
  qed
  with k show "\<exists>g flds.
            map_of rcd ''global'' = Some (JObj g) \<and> rrng = [(''global'', JObj flds)]
          \<and> (\<forall>fname w. (fname, w) \<in> set flds \<longrightarrow>
                (fname \<in> {''cost'', ''damage_state''}
                 \<and> (\<exists>out. w = JArr out \<and> length out = length P
                      \<and> (\<forall>i<length P. \<exists>x. map_of g fname = Some x
                                            \<and> subscript_idx x (P ! i) = Inr (out ! i))
                      \<and> (\<forall>arr. map_of g fname = Some (JArr arr)
                            \<longrightarrow> out = map ((!) arr) P
                                \<and> (mset P = mset [0..<length arr] \<longrightarrow> mset out = mset arr))))
              \<or> (fname = ''recovery''
                 \<and> (\<exists>rcv. w = JObj rcv \<and> length rcv = length P
                      \<and> (\<forall>i<length P. \<exists>r v. map_of g ''recovery'' = Some (JObj r)
                                            \<and> map_of r (rlz_key (P ! i)) = Some v
                                            \<and> rcv ! i = (rlz_key i, v))
                      \<and> (\<forall>r. map_of g ''recovery'' = Some (JObj r)
                              \<and> mset (map fst r) = mset (map rlz_key [0..<length r])
                              \<and> mset P = mset [0..<length r]
                            \<longrightarrow> mset (map snd rcv) = mset (map snd r)))))"
    by blast
qed

theorem C10_witness:
  "get_consequences_by_event_all_assets (\<lambda>s. None) demo_heap 1 demo_imfield [(''T'', demo_tax)] 2
      demo_assets
     = Some (Inr (res demo_final, asset_ds_description demo_final))
   \<and> (''1'', [(''a1'', [(''global'', JObj [(''cost'', JArr [JNum 20, JNum 10])])]),
              (''a2'', [(''global'', JObj [(''cost'', JArr [JNum 10, JNum 20])])])])
       \<in> set (res demo_final)
   \<and> (''a1'', [(''global'', JObj [(''cost'', JArr [JNum 20, JNum 10])])])
       \<in> set [(''a1'', [(''global'', JObj [(''cost'', JArr [JNum 20, JNum 10])])]),
               (''a2'', [(''global'', JObj [(''cost'', JArr [JNum 10, JNum 20])])])]
   \<and> ''1'' = str_nat 1
   \<and> (\<exists>Q tax tc xs r. mset Q = mset [0..<2] \<and> length Q = 2
         \<and> (tax, tc) \<in> set [(''T'', demo_tax)] \<and> map_of demo_assets tax = Some xs
         \<and> ''a1'' \<in> fst ` set xs
         \<and> r \<in> set (iml_consequences tc) \<and> 1 < dict_len r
         \<and> asset_cons_rrng r Q = Inr [(''global'', JObj [(''cost'', JArr [JNum 20, JNum 10])])])
   \<and> 1 < dict_len [(''im_level'', JNum (1 / 5)),
                    (''consequences'',
                       JArr [JObj [(''component'', JStr ''global''),
                                   (''cost'', JArr [JNum 10, JNum 20])]])]
   \<and> asset_cons_rrng [(''im_level'', JNum (1 / 5)),
                    (''consequences'',
                       JArr [JObj [(''component'', JStr ''global''),
                                   (''cost'', JArr [JNum 10, JNum 20])]])] [1, 0]
       = Inr [(''global'', JObj [(''cost'', JArr [JNum 20, JNum 10])])]
   \<and> (\<exists>d flds. JObj d \<in> set [JObj [(''component'', JStr ''global''),
                                       (''cost'', JArr [JNum 10, JNum 20])]]
         \<and> map_of d ''component'' = Some (JStr ''global'')
         \<and> JObj [(''cost'', JArr [JNum 20, JNum 10])] = JObj flds
         \<and> (\<forall>fname w. (fname, w) \<in> set flds \<longrightarrow>
               (\<exists>out. w = JArr out \<and> length out = length [1, 0::nat]
                  \<and> (\<forall>arr.
                        map_of d (if fname = ''recovery'' then ''recovery_realizations'' else fname)
                          = Some (JArr arr)
                        \<longrightarrow> out = map ((!) arr) [1, 0]
                            \<and> (mset [1, 0] = mset [0..<length arr] \<longrightarrow> mset out = mset arr)))))
   \<and> dict_len [(''global'', JObj [(''cost'', JArr [JNum 5, JNum 6]),
                                   (''recovery'', JObj [(''rlz_1'', JNum 7), (''rlz_2'', JNum 8)])])]
       \<le> 1
   \<and> asset_cons_rrng [(''global'', JObj [(''cost'', JArr [JNum 5, JNum 6]),
                                   (''recovery'', JObj [(''rlz_1'', JNum 7), (''rlz_2'', JNum 8)])])]
        [1, 0]
       = Inr [(''global'', JObj [(''cost'', JArr [JNum 6, JNum 5]),
                                 (''recovery'', JObj [(''rlz_1'', JNum 8), (''rlz_2'', JNum 7)])])]
   \<and> (\<exists>g rcv. map_of [(''global'', JObj [(''cost'', JArr [JNum 5, JNum 6]),
                                   (''recovery'', JObj [(''rlz_1'', JNum 7), (''rlz_2'', JNum 8)])])]
                  ''global'' = Some (JObj g)
         \<and> JObj [(''rlz_1'', JNum 8), (''rlz_2'', JNum 7)] = JObj rcv
         \<and> length rcv = length [1, 0::nat]
         \<and> (\<forall>r. map_of g ''recovery'' = Some (JObj r)
                  \<and> mset (map fst r) = mset (map rlz_key [0..<length r])
                  \<and> mset [1, 0] = mset [0..<length r]
                \<longrightarrow> mset (map snd rcv) = mset (map snd r)))"
proof -
  let ?rr = "[(''global'', JObj [(''cost'', JArr [JNum 20, JNum 10])])]"
  let ?as = "[(''a1'', ?rr), (''a2'', [(''global'', JObj [(''cost'', JArr [JNum 10, JNum 20])])])]"
  let ?r1 = "[(''im_level'', JNum (1 / 5)),
              (''consequences'',
                 JArr [JObj [(''component'', JStr ''global''),
                             (''cost'', JArr [JNum 10, JNum 20])]])]"
  let ?r2 = "[(''global'', JObj [(''cost'', JArr [JNum 5, JNum 6]),
                                 (''recovery'', JObj [(''rlz_1'', JNum 7), (''rlz_2'', JNum 8)])])]"
  let ?o2 = "[(''global'', JObj [(''cost'', JArr [JNum 6, JNum 5]),
                                 (''recovery'', JObj [(''rlz_1'', JNum 8), (''rlz_2'', JNum 7)])])]"
  note main = C10_rearranged_outputs
  have a1: "(''1'', ?as) \<in> set (res demo_final)" by (simp add: demo_final_def)
  have a2: "(''a1'', ?rr) \<in> set ?as" by simp
  from main [where f = "\<lambda>s. None" and h = demo_heap and ev = 1 and imf = demo_imfield
         and cons = "[(''T'', demo_tax)]" and N = 2 and ex = demo_assets
         and results = "res demo_final" and descr = "asset_ds_description demo_final"
         and e = "''1''" and assets = ?as and asset_name = "''a1''" and asset_rrng = ?rr,
         THEN conjunct1, rule_format, OF conjI [OF demo_engine conjI [OF a1 a2]]]
  have A: "''1'' = str_nat 1
     \<and> (\<exists>Q tax tc xs r. mset Q = mset [0..<2] \<and> length Q = 2
         \<and> (tax, tc) \<in> set [(''T'', demo_tax)] \<and> map_of demo_assets tax = Some xs
         \<and> ''a1'' \<in> fst ` set xs
         \<and> r \<in> set (iml_consequences tc) \<and> 1 < dict_len r
         \<and> asset_cons_rrng r Q = Inr ?rr)"
    by blast
  have b1: "1 < dict_len ?r1" by (simp add: dict_len_def)
  have b2: "asset_cons_rrng ?r1 [1, 0] = Inr ?rr"
    by (simp add: asset_cons_rrng_def dict_len_def tier1_def getitem_def tier1_component_def
          rrng_field_def has_key_def rearranged_def)
  have b3: "(''global'', JObj [(''cost'', JArr [JNum 20, JNum 10])]) \<in> set ?rr" by simp
  from main [where rcd = ?r1 and P = "[1, 0]" and rrng = ?rr and cname = "''global''"
         and v = "JObj [(''cost'', JArr [JNum 20, JNum 10])]",
         THEN conjunct2, THEN conjunct1, rule_format, OF conjI [OF b1 conjI [OF b2 b3]]]
  obtain cs comps d flds where
    k: "map_of ?r1 ''consequences'' = Some cs" "iterate cs = Inr comps" "JObj d \<in> set comps"
       "map_of d ''component'' = Some (JStr ''global'')"
       "JObj [(''cost'', JArr [JNum 20, JNum 10])] = JObj flds" and
    fl: "\<forall>fname w. (fname, w) \<in> set flds \<longrightarrow>
                fname \<in> {''cost'', ''damage_state'', ''recovery''}
              \<and> (\<exists>out. w = JArr out \<and> length out = length [1, 0::nat]
                   \<and> (\<forall>i<length [1, 0::nat]. \<exists>x.
                         map_of d (if fname = ''recovery'' then ''recovery_realizations'' else fname)
                           = Some x
                         \<and> subscript_idx x ([1, 0] ! i) = Inr (out ! i))
                   \<and> (\<forall>arr.
                         map_of d (if fname = ''recovery'' then ''recovery_realizations'' else fname)
                           = Some (JArr arr)
                         \<longrightarrow> out = map ((!) arr) [1, 0]
                             \<and> (mset [1, 0] = mset [0..<length arr] \<longrightarrow> mset out = mset arr)))"
    by blast
  from k(1,2) have "comps = [JObj [(''component'', JStr ''global''),
                                  (''cost'', JArr [JNum 10, JNum 20])]]" by auto
  with k(3,4,5) fl
  have B: "\<exists>d flds. JObj d \<in> set [JObj [(''component'', JStr ''global''),
                                       (''cost'', JArr [JNum 10, JNum 20])]]
         \<and> map_of d ''component'' = Some (JStr ''global'')
         \<and> JObj [(''cost'', JArr [JNum 20, JNum 10])] = JObj flds
         \<and> (\<forall>fname w. (fname, w) \<in> set flds \<longrightarrow>
               (\<exists>out. w = JArr out \<and> length out = length [1, 0::nat]
                  \<and> (\<forall>arr.
                        map_of d (if fname = ''recovery'' then ''recovery_realizations'' else fname)
                          = Some (JArr arr)
                        \<longrightarrow> out = map ((!) arr) [1, 0]
                            \<and> (mset [1, 0] = mset [0..<length arr] \<longrightarrow> mset out = mset arr))))"
    by blast
  have c1: "dict_len ?r2 \<le> 1" by (simp add: dict_len_def)
  have c2: "asset_cons_rrng ?r2 [1, 0] = Inr ?o2"
    by (simp add: asset_cons_rrng_def dict_len_def tier2_def getitem_def rrng_field_def
          has_key_def rearranged_def rlz_key_0 rlz_key_1)
  from main [where rcd = ?r2 and P = "[1, 0]" and rrng = ?o2,
         THEN conjunct2, THEN conjunct2, rule_format, OF conjI [OF c1 c2]]
  obtain g flds2 where
    g: "map_of ?r2 ''global'' = Some (JObj g)" "?o2 = [(''global'', JObj flds2)]" and
    fl2: "\<forall>fname w. (fname, w) \<in> set flds2 \<longrightarrow>
                (fname \<in> {''cost'', ''damage_state''}
                 \<and> (\<exists>out. w = JArr out \<and> length out = length [1, 0::nat]
                      \<and> (\<forall>i<length [1, 0::nat]. \<exists>x. map_of g fname = Some x
                                            \<and> subscript_idx x ([1, 0] ! i) = Inr (out ! i))
                      \<and> (\<forall>arr. map_of g fname = Some (JArr arr)
                            \<longrightarrow> out = map ((!) arr) [1, 0]
                                \<and> (mset [1, 0] = mset [0..<length arr] \<longrightarrow> mset out = mset arr))))
              \<or> (fname = ''recovery''
                 \<and> (\<exists>rcv. w = JObj rcv \<and> length rcv = length [1, 0::nat]
                      \<and> (\<forall>i<length [1, 0::nat]. \<exists>r v. map_of g ''recovery'' = Some (JObj r)
                                            \<and> map_of r (rlz_key ([1, 0] ! i)) = Some v
                                            \<and> rcv ! i = (rlz_key i, v))
                      \<and> (\<forall>r. map_of g ''recovery'' = Some (JObj r)
                              \<and> mset (map fst r) = mset (map rlz_key [0..<length r])
                              \<and> mset [1, 0] = mset [0..<length r]
                            \<longrightarrow> mset (map snd rcv) = mset (map snd r))))"
    by blast
  from g(2) have "(''recovery'', JObj [(''rlz_1'', JNum 8), (''rlz_2'', JNum 7)]) \<in> set flds2"
    by auto
  with fl2 have "\<exists>rcv. JObj [(''rlz_1'', JNum 8), (''rlz_2'', JNum 7)] = JObj rcv
                      \<and> length rcv = length [1, 0::nat]
                      \<and> (\<forall>r. map_of g ''recovery'' = Some (JObj r)
                              \<and> mset (map fst r) = mset (map rlz_key [0..<length r])
                              \<and> mset [1, 0] = mset [0..<length r]
                            \<longrightarrow> mset (map snd rcv) = mset (map snd r))"
    by fastforce
  with g(1) have C: "\<exists>g rcv. map_of ?r2 ''global'' = Some (JObj g)
         \<and> JObj [(''rlz_1'', JNum 8), (''rlz_2'', JNum 7)] = JObj rcv
         \<and> length rcv = length [1, 0::nat]
         \<and> (\<forall>r. map_of g ''recovery'' = Some (JObj r)
                  \<and> mset (map fst r) = mset (map rlz_key [0..<length r])
                  \<and> mset [1, 0] = mset [0..<length r]
                \<longrightarrow> mset (map snd rcv) = mset (map snd r))"
    by blast
  from demo_engine a1 a2 A b1 b2 B c1 c2 C show ?thesis by blast
qed

text \<open>
  Claim C10 as stated fails for an input array with more entries than \<open>Nrealizations\<close>:
  with \<open>Nrealizations = 2\<close> and the cost array \<open>[10, 20, 30]\<close> the engine emits
  \<open>[20, 10]\<close>, which is not a rearrangement of the input.
\<close>

theorem C10_counterexample:
  "get_consequences_by_event_all_assets (\<lambda>s. None) demo_heap 1 demo_imfield [(''T'', long_tax)] 2
      [(''T'', [(''a1'', demo_a1)])]
     = Some (Inr ([(''1'', [(''a1'', [(''global'', JObj [(''cost'', JArr [JNum 20, JNum 10])])])])],
                  [(''a1'', [(''component'', JStr ''global'')])]))
   \<and> map_of [(''component'', JStr ''global''), (''cost'', JArr [JNum 10, JNum 20, JNum 30])] ''cost''
       = Some (JArr [JNum 10, JNum 20, JNum 30])
   \<and> mset [JNum 20, JNum 10] \<noteq> mset [JNum 10, JNum 20, JNum 30]"
  using long_run by simp


section \<open>The event filter\<close>

text \<open>
  Claim C2 (fails on the code).  Two events of one rupture both pass stage 1 and the
  rupture passes the magnitude bound, yet the pipeline returns the first event twice and
  not the second: the events of a rupture are found with \<^verbatim>\<open>list.index\<close>, which gives
  the first position only.  No distance bound is set, so the result does not depend on
  the distance function.
\<close>

theorem C2_second_event_dropped:
  "filter_events geo demo_heap two_event_imfield [(''T'', demo_tax)] demo_assets
     (Some 4) None (Some (1 / 100)) None None [] = Inr [0, 0]"
  by (simp add: filter_events_def truthy_def filter_events_by_imvalue_def demo_tax_def
        two_event_imfield_def lower_pga getitem_def demo_assets_def demo_heap_def demo_a1_def
        demo_a2_def asset_events_def fiter_imfield_data_def in_bounds_def List.insert_def)

text \<open>
  Claim C8 (fails on the code).  In method 1 with a threshold supplied (here 0.5) the
  function raises the exception \<open>Warning\<close> before any candidate is selected, for every
  catalog: no candidate set is returned.
\<close>

theorem C8_warning_is_raised:
  "filter_events_by_imvalue h consequences imfield_data exp_assets 1 (Some (1 / 2)) = Inl Warning"
  by (simp add: filter_events_by_imvalue_def truthy_def)

lemma stage1_never_empty:
  "filter_events_by_imvalue h cons imf ex m thr = Inr S \<Longrightarrow> S \<noteq> []"
  by (auto simp: filter_events_by_imvalue_def split: if_splits sum.splits)

lemma stage1_empty_fails:
  assumes "event_taxonomies_loop h imf ex (if \<not> truthy thr then 1 else 2) thr cons [] = Inr []"
  shows "filter_events_by_imvalue h cons imf ex (if \<not> truthy thr then 1 else 2) thr
           = Inl AssertionError"
  using assms by (simp add: filter_events_by_imvalue_def)

lemma filter_all_out: "list_all (\<lambda>r. \<not> P r) xs \<Longrightarrow> filter P xs = []"
  by (induction xs) simp_all

text \<open>
  Claim C3, as amended.  The pipeline fails with the assertion error of stage 1 when the
  stage-1 candidate set is empty, and stage 1 never returns an empty set.  When the
  magnitude stage or the distance stage leaves no rupture, the pipeline returns the
  empty sequence of event ids as a normal result.
\<close>

theorem C3_empty_results:
  "(event_taxonomies_loop h imf ex (if \<not> truthy thr then 1 else 2) thr cons [] = Inr [] \<longrightarrow>
      filter_events geo h imf cons ex min_mag max_mag thr min_dist max_dist ref
        = Inl AssertionError)
   \<and> (filter_events_by_imvalue h cons imf ex (if \<not> truthy thr then 1 else 2) thr = Inr S \<longrightarrow>
        S \<noteq> [])
   \<and> (filter_events_by_imvalue h cons imf ex (if \<not> truthy thr then 1 else 2) thr = Inr S
        \<and> fiter_imfield_data imf S = Inr (fe, fr)
        \<and> \<not> truthy min_dist \<and> \<not> truthy max_dist
        \<and> list_all (\<lambda>r. \<not> in_bounds min_mag max_mag (mag r)) fr \<longrightarrow>
      filter_events geo h imf cons ex min_mag max_mag thr min_dist max_dist ref = Inr [])
   \<and> (filter_events_by_imvalue h cons imf ex (if \<not> truthy thr then 1 else 2) thr = Inr S
        \<and> fiter_imfield_data imf S = Inr (fe, fr)
        \<and> (truthy min_dist \<or> truthy max_dist)
        \<and> map_of ref ''lon'' = Some cent_lon \<and> map_of ref ''lat'' = Some cent_lat
        \<and> list_all (\<lambda>r. \<not> in_bounds min_dist max_dist (geo (hypo r) (cent_lon, cent_lat)))
             (filter (\<lambda>r. in_bounds min_mag max_mag (mag r)) fr) \<longrightarrow>
      filter_events geo h imf cons ex min_mag max_mag thr min_dist max_dist ref = Inr [])"
proof (intro conjI impI)
  assume "event_taxonomies_loop h imf ex (if \<not> truthy thr then 1 else 2) thr cons [] = Inr []"
  from stage1_empty_fails [OF this]
  show "filter_events geo h imf cons ex min_mag max_mag thr min_dist max_dist ref
          = Inl AssertionError"
    by (simp add: filter_events_def)
next
  assume "filter_events_by_imvalue h cons imf ex (if \<not> truthy thr then 1 else 2) thr = Inr S"
  then show "S \<noteq> []" by (rule stage1_never_empty)
next
  assume a: "filter_events_by_imvalue h cons imf ex (if \<not> truthy thr then 1 else 2) thr = Inr S
        \<and> fiter_imfield_data imf S = Inr (fe, fr)
        \<and> \<not> truthy min_dist \<and> \<not> truthy max_dist
        \<and> list_all (\<lambda>r. \<not> in_bounds min_mag max_mag (mag r)) fr"
  then have "filter (\<lambda>r. in_bounds min_mag max_mag (mag r)) fr = []"
    by (simp add: filter_all_out)
  with a show "filter_events geo h imf cons ex min_mag max_mag thr min_dist max_dist ref = Inr []"
    by (simp add: filter_events_def)
next
  assume a: "filter_events_by_imvalue h cons imf ex (if \<not> truthy thr then 1 else 2) thr = Inr S
        \<and> fiter_imfield_data imf S = Inr (fe, fr)
        \<and> (truthy min_dist \<or> truthy max_dist)
        \<and> map_of ref ''lon'' = Some cent_lon \<and> map_of ref ''lat'' = Some cent_lat
        \<and> list_all (\<lambda>r. \<not> in_bounds min_dist max_dist (geo (hypo r) (cent_lon, cent_lat)))
             (filter (\<lambda>r. in_bounds min_mag max_mag (mag r)) fr)"
  then have "list_all (\<lambda>r. \<not> in_bounds min_dist max_dist (geo (hypo r) (cent_lon, cent_lat)))
             (filter (\<lambda>r. in_bounds min_mag max_mag (mag r)) fr)"
    by blast
  then have e: "filter (\<lambda>r. in_bounds min_dist max_dist (geo (hypo r) (cent_lon, cent_lat)))
             (filter (\<lambda>r. in_bounds min_mag max_mag (mag r)) fr) = []"
    by (rule filter_all_out)
  from a have "ref \<noteq> []" by auto
  with a e show "filter_events geo h imf cons ex min_mag max_mag thr min_dist max_dist ref = Inr []"
    by (simp add: filter_events_def getitem_def del: filter_filter)
qed

lemma demo_stage1:
  "filter_events_by_imvalue demo_heap [(''T'', demo_tax)] demo_imfield demo_assets
     (if \<not> truthy (Some (1 / 100)) then 1 else 2) (Some (1 / 100)) = Inr [1]"
  by (simp add: truthy_def filter_events_by_imvalue_def demo_tax_def
        demo_imfield_def lower_pga getitem_def demo_assets_def demo_heap_def demo_a1_def
        demo_a2_def asset_events_def List.insert_def)

lemma demo_stage1_empty:
  "event_taxonomies_loop demo_heap demo_imfield demo_assets
     (if \<not> truthy (Some (1 / 2)) then 1 else 2) (Some (1 / 2)) [(''T'', demo_tax)] [] = Inr []"
  by (simp add: truthy_def demo_tax_def
        demo_imfield_def lower_pga getitem_def demo_assets_def demo_heap_def demo_a1_def
        demo_a2_def asset_events_def List.insert_def)

lemma demo_fiter:
  "fiter_imfield_data demo_imfield [1]
     = Inr ([\<lparr>ev_id = 1, rup_id = 1\<rparr>], [\<lparr>rupture_id = 1, mag = 5, hypo = (0, 0)\<rparr>])"
  by (simp add: fiter_imfield_data_def demo_imfield_def)

theorem C3_witness:
  "event_taxonomies_loop demo_heap demo_imfield demo_assets
     (if \<not> truthy (Some (1 / 2)) then 1 else 2) (Some (1 / 2)) [(''T'', demo_tax)] [] = Inr []
   \<and> filter_events (\<lambda>p q. 7) demo_heap demo_imfield [(''T'', demo_tax)] demo_assets
        (Some 6) None (Some (1 / 2)) None None [] = Inl AssertionError
   \<and> filter_events_by_imvalue demo_heap [(''T'', demo_tax)] demo_imfield demo_assets
        (if \<not> truthy (Some (1 / 100)) then 1 else 2) (Some (1 / 100)) = Inr [1]
   \<and> [1::nat] \<noteq> []
   \<and> fiter_imfield_data demo_imfield [1]
        = Inr ([\<lparr>ev_id = 1, rup_id = 1\<rparr>], [\<lparr>rupture_id = 1, mag = 5, hypo = (0, 0)\<rparr>])
   \<and> list_all (\<lambda>r. \<not> in_bounds (Some 6) None (mag r)) [\<lparr>rupture_id = 1, mag = 5, hypo = (0, 0)\<rparr>]
   \<and> filter_events (\<lambda>p q. 7) demo_heap demo_imfield [(''T'', demo_tax)] demo_assets
        (Some 6) None (Some (1 / 100)) None None [] = Inr []
   \<and> list_all (\<lambda>r. \<not> in_bounds None (Some 5) ((\<lambda>p q. 7) (hypo r) (1, 2)))
        (filter (\<lambda>r. in_bounds (Some 4) None (mag r)) [\<lparr>rupture_id = 1, mag = 5, hypo = (0, 0)\<rparr>])
   \<and> filter_events (\<lambda>p q. 7) demo_heap demo_imfield [(''T'', demo_tax)] demo_assets
        (Some 4) None (Some (1 / 100)) None (Some 5) [(''lon'', 1), (''lat'', 2)] = Inr []"
proof -
  have b1: "list_all (\<lambda>r. \<not> in_bounds (Some 6) None (mag r))
              [\<lparr>rupture_id = 1, mag = 5, hypo = (0, 0)\<rparr>]"
    by (simp add: in_bounds_def truthy_def)
  have b2: "list_all (\<lambda>r. \<not> in_bounds None (Some 5) ((\<lambda>p q. 7) (hypo r) (1, 2)))
        (filter (\<lambda>r. in_bounds (Some 4) None (mag r)) [\<lparr>rupture_id = 1, mag = 5, hypo = (0, 0)\<rparr>])"
    by (simp add: in_bounds_def truthy_def)
  have t: "\<not> truthy None" "truthy (Some 5)" by (simp_all add: truthy_def)
  have m: "map_of [(''lon'', 1::rat), (''lat'', 2)] ''lon'' = Some 1"
          "map_of [(''lon'', 1::rat), (''lat'', 2)] ''lat'' = Some 2" by simp_all
  note w1 = C3_empty_results [of demo_heap demo_imfield demo_assets "Some (1 / 2)"
       "[(''T'', demo_tax)]" "\<lambda>p q. 7" "Some 6" None None None "[]"]
  note w2 = C3_empty_results [of demo_heap demo_imfield demo_assets "Some (1 / 100)"
       "[(''T'', demo_tax)]" "\<lambda>p q. 7" "Some 6" None None None "[]" "[1]"
       "[\<lparr>ev_id = 1, rup_id = 1\<rparr>]" "[\<lparr>rupture_id = 1, mag = 5, hypo = (0, 0)\<rparr>]"]
  note w3 = C3_empty_results [of demo_heap demo_imfield demo_assets "Some (1 / 100)"
       "[(''T'', demo_tax)]" "\<lambda>p q. 7" "Some 4" None None "Some 5" "[(''lon'', 1), (''lat'', 2)]" "[1]"
       "[\<lparr>ev_id = 1, rup_id = 1\<rparr>]" "[\<lparr>rupture_id = 1, mag = 5, hypo = (0, 0)\<rparr>]" 1 2]
  from w1 demo_stage1_empty
  have r1: "filter_events (\<lambda>p q. 7) demo_heap demo_imfield [(''T'', demo_tax)] demo_assets
        (Some 6) None (Some (1 / 2)) None None [] = Inl AssertionError" by blast
  from w2 demo_stage1 demo_fiter b1 t
  have r2: "filter_events (\<lambda>p q. 7) demo_heap demo_imfield [(''T'', demo_tax)] demo_assets
        (Some 6) None (Some (1 / 100)) None None [] = Inr []" by blast
  from w3 demo_stage1 demo_fiter b2 t m
  have r3: "filter_events (\<lambda>p q. 7) demo_heap demo_imfield [(''T'', demo_tax)] demo_assets
        (Some 4) None (Some (1 / 100)) None (Some 5) [(''lon'', 1), (''lat'', 2)] = Inr []" by blast
  from demo_stage1_empty r1 demo_stage1 demo_fiter b1 r2 b2 r3 show ?thesis by simp
qed

text \<open>
  Claim C3 as stated fails: with one event whose rupture has magnitude 5 and a minimum
  magnitude of 6, the pipeline returns the empty sequence and raises nothing.
\<close>

theorem C3_counterexample:
  "filter_events (\<lambda>p q. 0) demo_heap demo_imfield [(''T'', demo_tax)] demo_assets
     (Some 6) None (Some (1 / 100)) None None [] = Inr []"
  by (simp add: filter_events_def truthy_def filter_events_by_imvalue_def demo_tax_def
        demo_imfield_def lower_pga getitem_def demo_assets_def demo_heap_def demo_a1_def
        demo_a2_def asset_events_def fiter_imfield_data_def in_bounds_def List.insert_def)

section \<open>Resolving assets to hazard sites\<close>

text \<open>\<open>argmin\<close> returns the first position of a smallest key.\<close>

lemma argmin_from_first_min:
  assumes "length pre = i" "best < i" "bk = pre ! best"
      and "\<forall>j<i. bk \<le> pre ! j" and "\<forall>j<best. bk < pre ! j"
  shows "argmin_from ks i best bk < length (pre @ ks)
       \<and> (\<forall>j<length (pre @ ks). (pre @ ks) ! argmin_from ks i best bk \<le> (pre @ ks) ! j)
       \<and> (\<forall>j<argmin_from ks i best bk. (pre @ ks) ! argmin_from ks i best bk < (pre @ ks) ! j)"
  using assms
proof (induction ks arbitrary: pre i best bk)
  case Nil
  then show ?case by auto
next
  case (Cons k ks)
  show ?case
  proof (cases "k < bk")
    case True
    have "argmin_from ks (Suc i) i k < length ((pre @ [k]) @ ks)
       \<and> (\<forall>j<length ((pre @ [k]) @ ks).
             ((pre @ [k]) @ ks) ! argmin_from ks (Suc i) i k \<le> ((pre @ [k]) @ ks) ! j)
       \<and> (\<forall>j<argmin_from ks (Suc i) i k.
             ((pre @ [k]) @ ks) ! argmin_from ks (Suc i) i k < ((pre @ [k]) @ ks) ! j)"
    proof (rule Cons.IH)
      show "length (pre @ [k]) = Suc i" using Cons.prems(1) by simp
      show "i < Suc i" by simp
      show "k = (pre @ [k]) ! i" using Cons.prems(1) by (metis nth_append_length)
      show "\<forall>j<Suc i. k \<le> (pre @ [k]) ! j"
        using Cons.prems(1,4) True by (auto simp: nth_append less_Suc_eq)
      show "\<forall>j<i. k < (pre @ [k]) ! j"
        using Cons.prems(1,4) True by (auto simp: nth_append)
    qed
    with True show ?thesis by simp
  next
    case False
    have "argmin_from ks (Suc i) best bk < length ((pre @ [k]) @ ks)
       \<and> (\<forall>j<length ((pre @ [k]) @ ks).
             ((pre @ [k]) @ ks) ! argmin_from ks (Suc i) best bk \<le> ((pre @ [k]) @ ks) ! j)
       \<and> (\<forall>j<argmin_from ks (Suc i) best bk.
             ((pre @ [k]) @ ks) ! argmin_from ks (Suc i) best bk < ((pre @ [k]) @ ks) ! j)"
    proof (rule Cons.IH)
      show "length (pre @ [k]) = Suc i" using Cons.prems(1) by simp
      show "best < Suc i" using Cons.prems(2) by simp
      show "bk = (pre @ [k]) ! best" using Cons.prems(1,2,3) by (simp add: nth_append)
      show "\<forall>j<Suc i. bk \<le> (pre @ [k]) ! j"
        using Cons.prems(1,4) False by (auto simp: nth_append less_Suc_eq)
      show "\<forall>j<best. bk < (pre @ [k]) ! j"
        using Cons.prems(1,2,5) by (auto simp: nth_append)
    qed
    with False show ?thesis by simp
  qed
qed

lemma argmin_first_min:
  assumes "argmin ks = Inr i"
  shows "i < length ks \<and> (\<forall>j<length ks. ks ! i \<le> ks ! j) \<and> (\<forall>j<i. ks ! i < ks ! j)"
proof (cases ks)
  case Nil
  with assms show ?thesis by (simp add: argmin_def)
next
  case (Cons k ks')
  with assms have i: "i = argmin_from ks' 1 0 k" by (simp add: argmin_def)
  from argmin_from_first_min [of "[k]" 1 0 k ks'] show ?thesis
    unfolding i Cons by simp
qed

lemma argmin_empty: "argmin ks = Inl e \<longleftrightarrow> ks = [] \<and> e = ValueError"
  by (auto simp: argmin_def split: list.splits)

text \<open>When the asset's site is known and there are hazard sites, geodesic resolution
  fails exactly when the smallest distance is not below the maximum.\<close>

lemma geodesic_sid_fails_iff:
  assumes "filter (\<lambda>r. sid_matches s (site_id r)) rows = [r]" and "imfield_sites \<noteq> []"
  shows "geodesic_sid geo imfield_sites (Some rows) (Some m) s = Inl AssertionError
         \<longleftrightarrow> m \<le> Min (set (map (\<lambda>st. geo (site_lat st, site_lon st) (lat r, lon r)) imfield_sites))"
proof -
  let ?d = "map (\<lambda>st. geo (site_lat st, site_lon st) (lat r, lon r)) imfield_sites"
  from assms(2) have ne: "?d \<noteq> []" by simp
  then obtain i where i: "argmin ?d = Inr i"
    by (cases "argmin ?d") (auto simp: argmin_empty)
  from argmin_first_min [OF i] have il: "i < length ?d" and le: "\<forall>j<length ?d. ?d ! i \<le> ?d ! j"
    by blast+
  have "Min (set ?d) = ?d ! i"
  proof (rule Min_eqI)
    show "finite (set ?d)" by simp
    show "\<And>y. y \<in> set ?d \<Longrightarrow> ?d ! i \<le> y" using le by (auto simp: in_set_conv_nth)
    show "?d ! i \<in> set ?d" using il by (rule nth_mem)
  qed
  then show ?thesis using assms(1) i by (auto simp: geodesic_sid_def Let_def)
qed

text \<open>
  Claim C7 (fails on the code).  One hazard site at \<open>(0, 0)\<close>, one asset whose site lies
  at \<open>(1, 2)\<close>, and a maximum allowable distance equal to the distance between the two,
  whatever the distance function: the nearest site lies at exactly the maximum and the
  asset is rejected with the assertion error, where the claim has it matched.
\<close>

theorem C7_boundary_rejected:
  "exposure_by_taxonomy geo
     (\<lambda>l. \<lparr>loc_sid = SList [3], hzrd_ctrl_pnt = None, hazard_sid = None\<rparr>)
     [(''a1'', demo_a1)] [(''T'', demo_tax)] demo_imfield False
     (Some [\<lparr>site_id = 3, lat = 1, lon = 2\<rparr>]) (Some (geo (0, 0) (1, 2)))
   = (\<lambda>l. \<lparr>loc_sid = SList [3], hzrd_ctrl_pnt = None, hazard_sid = None\<rparr>, Inl AssertionError)"
  by (simp add: exposure_by_taxonomy_def demo_a1_def demo_tax_def demo_imfield_def resolve_def
        find_asset_sid_def lower_def lower_char_def geodesic_sid_def sid_matches_def argmin_def)

lemma assets_loop_heap:
  "assets_loop rslv tax xs h acc = (h', r) \<Longrightarrow>
     loc_sid (h' l) = loc_sid (h l) \<and> hzrd_ctrl_pnt (h' l) = hzrd_ctrl_pnt (h l)
     \<and> (hazard_sid (h l) \<noteq> None \<longrightarrow> hazard_sid (h' l) \<noteq> None)
     \<and> (l \<notin> asset_location ` snd ` {x \<in> set xs. taxonomy (snd x) = tax} \<longrightarrow> h' l = h l)"
proof (induction xs arbitrary: h acc)
  case Nil
  then show ?case by simp
next
  case (Cons x xs)
  obtain n a where x: "x = (n, a)" by (cases x)
  show ?case
  proof (cases "taxonomy a = tax")
    case False
    with Cons.prems x have "assets_loop rslv tax xs h acc = (h', r)" by simp
    from Cons.IH [OF this] show ?thesis using x False by auto
  next
    case True
    show ?thesis
    proof (cases "rslv (h (asset_location a)) (asset_type a)")
      case (Inl e)
      with Cons.prems x True show ?thesis by simp
    next
      case (Inr s)
      let ?h1 = "h(asset_location a := (h (asset_location a))\<lparr>hazard_sid := Some s\<rparr>)"
      from Cons.prems x True Inr
      have "assets_loop rslv tax xs ?h1 (AList.update n a acc) = (h', r)" by simp
      from Cons.IH [OF this]
      have ih: "loc_sid (h' l) = loc_sid (?h1 l)" "hzrd_ctrl_pnt (h' l) = hzrd_ctrl_pnt (?h1 l)"
        "hazard_sid (?h1 l) \<noteq> None \<longrightarrow> hazard_sid (h' l) \<noteq> None"
        "l \<notin> asset_location ` snd ` {x \<in> set xs. taxonomy (snd x) = tax} \<longrightarrow> h' l = ?h1 l"
        by blast+
      have mem: "asset_location a \<in> asset_location ` snd ` {y \<in> set (x # xs). taxonomy (snd y) = tax}"
        using x True by force
      have sub: "asset_location ` snd ` {y \<in> set xs. taxonomy (snd y) = tax}
                 \<subseteq> asset_location ` snd ` {y \<in> set (x # xs). taxonomy (snd y) = tax}"
        by auto
      show ?thesis
      proof (cases "l = asset_location a")
        case True
        with ih(1,2,3) mem show ?thesis by simp
      next
        case False
        with ih sub show ?thesis by auto
      qed
    qed
  qed
qed

lemma assets_loop_result:
  "assets_loop rslv tax xs h acc = (h', Inr acc') \<Longrightarrow> (n, a) \<in> set acc' \<Longrightarrow>
     (n, a) \<in> set acc
     \<or> ((n, a) \<in> set xs \<and> taxonomy a = tax \<and> hazard_sid (h' (asset_location a)) \<noteq> None)"
proof (induction xs arbitrary: h acc)
  case Nil
  then show ?case by simp
next
  case (Cons x xs)
  obtain n0 a0 where x: "x = (n0, a0)" by (cases x)
  show ?case
  proof (cases "taxonomy a0 = tax")
    case False
    with Cons.prems x have "assets_loop rslv tax xs h acc = (h', Inr acc')" by simp
    from Cons.IH [OF this Cons.prems(2)] show ?thesis by auto
  next
    case True
    show ?thesis
    proof (cases "rslv (h (asset_location a0)) (asset_type a0)")
      case (Inl e)
      with Cons.prems x True show ?thesis by simp
    next
      case (Inr s)
      let ?h1 = "h(asset_location a0 := (h (asset_location a0))\<lparr>hazard_sid := Some s\<rparr>)"
      from Cons.prems x True Inr
      have run: "assets_loop rslv tax xs ?h1 (AList.update n0 a0 acc) = (h', Inr acc')" by simp
      from Cons.IH [OF run Cons.prems(2)]
      consider "(n, a) \<in> set (AList.update n0 a0 acc)"
        | "(n, a) \<in> set xs \<and> taxonomy a = tax \<and> hazard_sid (h' (asset_location a)) \<noteq> None"
        by blast
      then show ?thesis
      proof cases
        case 1
        with set_update_subset [of n0 a0 acc] have "(n, a) = (n0, a0) \<or> (n, a) \<in> set acc" by auto
        moreover have "hazard_sid (h' (asset_location a0)) \<noteq> None"
          using assets_loop_heap [OF run, of "asset_location a0"] by simp
        ultimately show ?thesis using x True by auto
      next
        case 2
        then show ?thesis by auto
      qed
    qed
  qed
qed

lemma taxonomies_loop_heap:
  "taxonomies_loop rslv ex taxes h abt = (h', r) \<Longrightarrow>
     loc_sid (h' l) = loc_sid (h l) \<and> hzrd_ctrl_pnt (h' l) = hzrd_ctrl_pnt (h l)
     \<and> (hazard_sid (h l) \<noteq> None \<longrightarrow> hazard_sid (h' l) \<noteq> None)
     \<and> (l \<notin> asset_location ` snd ` {x \<in> set ex. taxonomy (snd x) \<in> set taxes} \<longrightarrow> h' l = h l)"
proof (induction taxes arbitrary: h abt)
  case Nil
  then show ?case by simp
next
  case (Cons t taxes)
  obtain h1 r1 where a: "assets_loop rslv t ex h [] = (h1, r1)" by (cases "assets_loop rslv t ex h []")
  note ah = assets_loop_heap [OF a, of l]
  show ?case
  proof (cases r1)
    case (Inl e)
    with Cons.prems a have "h' = h1" by simp
    with ah show ?thesis by auto
  next
    case (Inr assets)
    with Cons.prems a
    have "taxonomies_loop rslv ex taxes h1 (AList.update t assets abt) = (h', r)" by simp
    from Cons.IH [OF this] ah show ?thesis by auto
  qed
qed

lemma taxonomies_loop_result:
  "taxonomies_loop rslv ex taxes h abt = (h', Inr abt') \<Longrightarrow>
   (tax, assets) \<in> set abt' \<Longrightarrow> (n, a) \<in> set assets \<Longrightarrow>
     (tax, assets) \<in> set abt
     \<or> ((n, a) \<in> set ex \<and> taxonomy a = tax \<and> hazard_sid (h' (asset_location a)) \<noteq> None)"
proof (induction taxes arbitrary: h abt)
  case Nil
  then show ?case by simp
next
  case (Cons t taxes)
  obtain h1 r1 where al: "assets_loop rslv t ex h [] = (h1, r1)"
    by (cases "assets_loop rslv t ex h []")
  show ?case
  proof (cases r1)
    case (Inl e)
    with Cons.prems al show ?thesis by simp
  next
    case (Inr assets1)
    with Cons.prems al
    have run: "taxonomies_loop rslv ex taxes h1 (AList.update t assets1 abt) = (h', Inr abt')"
      by simp
    from Cons.IH [OF run Cons.prems(2,3)]
    consider "(tax, assets) \<in> set (AList.update t assets1 abt)"
      | "(n, a) \<in> set ex \<and> taxonomy a = tax \<and> hazard_sid (h' (asset_location a)) \<noteq> None"
      by blast
    then show ?thesis
    proof cases
      case 1
      with set_update_subset [of t assets1 abt]
      have "(tax, assets) = (t, assets1) \<or> (tax, assets) \<in> set abt" by auto
      then show ?thesis
      proof
        assume eq: "(tax, assets) = (t, assets1)"
        with Cons.prems(3) have "(n, a) \<in> set assets1" by simp
        from assets_loop_result [OF al [unfolded Inr] this]
        have in1: "(n, a) \<in> set ex" "taxonomy a = t" "hazard_sid (h1 (asset_location a)) \<noteq> None"
          by simp_all
        from taxonomies_loop_heap [OF run, of "asset_location a"] in1(3)
        have "hazard_sid (h' (asset_location a)) \<noteq> None" by simp
        with in1 eq show ?thesis by simp
      next
        assume "(tax, assets) \<in> set abt"
        then show ?thesis by simp
      qed
    next
      case 2
      then show ?thesis by simp
    qed
  qed
qed

lemma assets_loop_exact:
  assumes "assets_loop rslv tax xs h acc = (h', Inr acc')"
      and "distinct (map fst xs)" and "fst ` set xs \<inter> fst ` set acc = {}"
  shows "acc' = acc @ filter (\<lambda>x. taxonomy (snd x) = tax) xs"
  using assms
proof (induction xs arbitrary: h acc)
  case Nil
  then show ?case by simp
next
  case (Cons x xs)
  obtain n a where x: "x = (n, a)" by (cases x)
  show ?case
  proof (cases "taxonomy a = tax")
    case False
    with Cons.prems x have "assets_loop rslv tax xs h acc = (h', Inr acc')" by simp
    moreover from Cons.prems have "distinct (map fst xs)" "fst ` set xs \<inter> fst ` set acc = {}"
      by auto
    ultimately have "acc' = acc @ filter (\<lambda>x. taxonomy (snd x) = tax) xs" by (rule Cons.IH)
    with x False show ?thesis by simp
  next
    case True
    show ?thesis
    proof (cases "rslv (h (asset_location a)) (asset_type a)")
      case (Inl e)
      with Cons.prems x True show ?thesis by simp
    next
      case (Inr s)
      let ?h1 = "h(asset_location a := (h (asset_location a))\<lparr>hazard_sid := Some s\<rparr>)"
      from Cons.prems(3) x have new: "n \<notin> fst ` set acc" by auto
      from Cons.prems x True Inr
      have "assets_loop rslv tax xs ?h1 (AList.update n a acc) = (h', Inr acc')" by simp
      with new have run: "assets_loop rslv tax xs ?h1 (acc @ [(n, a)]) = (h', Inr acc')"
        by (simp add: update_append_new)
      from Cons.prems(2) x have d: "distinct (map fst xs)" and nn: "n \<notin> fst ` set xs" by auto
      from Cons.prems(3) nn have dj: "fst ` set xs \<inter> fst ` set (acc @ [(n, a)]) = {}" by auto
      from Cons.IH [OF run d dj] x True show ?thesis by simp
    qed
  qed
qed

lemma assets_loop_annotates:
  assumes "assets_loop rslv tax xs h acc = (h', Inr acc')"
      and "distinct (map (\<lambda>x. asset_location (snd x)) xs)"
      and "(n, a) \<in> set xs" and "taxonomy a = tax"
  shows "\<exists>s. rslv (h (asset_location a)) (asset_type a) = Inr s
             \<and> h' (asset_location a) = (h (asset_location a))\<lparr>hazard_sid := Some s\<rparr>"
  using assms(1,2,3)
proof (induction xs arbitrary: h acc)
  case Nil
  then show ?case by simp
next
  case (Cons x xs)
  obtain n0 a0 where x: "x = (n0, a0)" by (cases x)
  from Cons.prems(2) x have d: "distinct (map (\<lambda>x. asset_location (snd x)) xs)"
    and fresh: "asset_location a0 \<notin> (\<lambda>x. asset_location (snd x)) ` set xs" by auto
  show ?case
  proof (cases "taxonomy a0 = tax")
    case False
    with Cons.prems x have run: "assets_loop rslv tax xs h acc = (h', Inr acc')" by simp
    from Cons.prems(3) x False assms(4) have "(n, a) \<in> set xs" by auto
    from Cons.IH [OF run d this] show ?thesis .
  next
    case True
    show ?thesis
    proof (cases "rslv (h (asset_location a0)) (asset_type a0)")
      case (Inl e)
      with Cons.prems x True show ?thesis by simp
    next
      case (Inr s)
      let ?h1 = "h(asset_location a0 := (h (asset_location a0))\<lparr>hazard_sid := Some s\<rparr>)"
      from Cons.prems x True Inr
      have run: "assets_loop rslv tax xs ?h1 (AList.update n0 a0 acc) = (h', Inr acc')" by simp
      show ?thesis
      proof (cases "(n, a) = (n0, a0)")
        case True
        have "asset_location a0 \<notin> asset_location ` snd ` {y \<in> set xs. taxonomy (snd y) = tax}"
          using fresh by auto
        with assets_loop_heap [OF run, of "asset_location a0"]
        have "h' (asset_location a0) = ?h1 (asset_location a0)" by blast
        with True Inr show ?thesis by simp
      next
        case False
        with Cons.prems(3) x have mem: "(n, a) \<in> set xs" by auto
        with fresh have ne: "asset_location a \<noteq> asset_location a0" by force
        from Cons.IH [OF run d mem] ne show ?thesis by simp
      qed
    qed
  qed
qed

lemma taxonomies_loop_exact:
  assumes "taxonomies_loop rslv ex taxes h abt = (h', Inr abt')"
      and "distinct (map fst ex)" and "distinct taxes" and "set taxes \<inter> fst ` set abt = {}"
  shows "abt' = abt @ map (\<lambda>t. (t, filter (\<lambda>x. taxonomy (snd x) = t) ex)) taxes"
  using assms(1,3,4)
proof (induction taxes arbitrary: h abt)
  case Nil
  then show ?case by simp
next
  case (Cons t taxes)
  obtain h1 r1 where al: "assets_loop rslv t ex h [] = (h1, r1)"
    by (cases "assets_loop rslv t ex h []")
  show ?case
  proof (cases r1)
    case (Inl e)
    with Cons.prems al show ?thesis by simp
  next
    case (Inr assets1)
    from assets_loop_exact [OF al [unfolded Inr] assms(2)]
    have a1: "assets1 = filter (\<lambda>x. taxonomy (snd x) = t) ex" by simp
    from Cons.prems(3) have new: "t \<notin> fst ` set abt" by auto
    from Cons.prems al Inr
    have "taxonomies_loop rslv ex taxes h1 (AList.update t assets1 abt) = (h', Inr abt')" by simp
    with new have run: "taxonomies_loop rslv ex taxes h1 (abt @ [(t, assets1)]) = (h', Inr abt')"
      by (simp add: update_append_new)
    from Cons.prems(2) have d: "distinct taxes" and nt: "t \<notin> set taxes" by auto
    from Cons.prems(3) nt have dj: "set taxes \<inter> fst ` set (abt @ [(t, assets1)]) = {}" by auto
    from Cons.IH [OF run d dj] a1 show ?thesis by simp
  qed
qed

lemma taxonomies_loop_annotates:
  assumes "taxonomies_loop rslv ex taxes h abt = (h', Inr abt')"
      and "distinct (map (\<lambda>x. asset_location (snd x)) ex)" and "distinct taxes"
      and "(n, a) \<in> set ex" and "taxonomy a \<in> set taxes"
  shows "\<exists>s. rslv (h (asset_location a)) (asset_type a) = Inr s
             \<and> h' (asset_location a) = (h (asset_location a))\<lparr>hazard_sid := Some s\<rparr>"
  using assms(1,3,5)
proof (induction taxes arbitrary: h abt)
  case Nil
  then show ?case by simp
next
  case (Cons t taxes)
  obtain h1 r1 where al: "assets_loop rslv t ex h [] = (h1, r1)"
    by (cases "assets_loop rslv t ex h []")
  from Cons.prems(2) have d: "distinct taxes" and nt: "t \<notin> set taxes" by auto
  have other: "asset_location a \<noteq> asset_location b" if "(m, b) \<in> set ex" "taxonomy b \<noteq> taxonomy a" for m b
  proof
    assume e: "asset_location a = asset_location b"
    from assms(2) have "inj_on (\<lambda>x. asset_location (snd x)) (set ex)" by (simp add: distinct_map)
    from inj_onD [OF this _ assms(4) that(1)] e have "(n, a) = (m, b)" by simp
    with that(2) show False by simp
  qed
  show ?case
  proof (cases r1)
    case (Inl e)
    with Cons.prems al show ?thesis by simp
  next
    case (Inr assets1)
    with Cons.prems al
    have run: "taxonomies_loop rslv ex taxes h1 (AList.update t assets1 abt) = (h', Inr abt')"
      by simp
    show ?thesis
    proof (cases "taxonomy a = t")
      case True
      from assets_loop_annotates [OF al [unfolded Inr] assms(2) assms(4) True]
      obtain s where s: "rslv (h (asset_location a)) (asset_type a) = Inr s"
        "h1 (asset_location a) = (h (asset_location a))\<lparr>hazard_sid := Some s\<rparr>" by blast
      have "asset_location a \<notin> asset_location ` snd ` {x \<in> set ex. taxonomy (snd x) \<in> set taxes}"
        using other True nt by force
      with taxonomies_loop_heap [OF run, of "asset_location a"]
      have "h' (asset_location a) = h1 (asset_location a)" by blast
      with s show ?thesis by simp
    next
      case False
      with Cons.prems(3) have mem: "taxonomy a \<in> set taxes" by simp
      have "asset_location a \<notin> asset_location ` snd ` {x \<in> set ex. taxonomy (snd x) = t}"
        using other False by force
      with assets_loop_heap [OF al, of "asset_location a"]
      have "h1 (asset_location a) = h (asset_location a)" by blast
      with Cons.IH [OF run d mem] show ?thesis by simp
    qed
  qed
qed

text \<open>
  Claim C9, as amended.  \<^verbatim>\<open>exposure_by_taxonomy\<close> annotates the caller's assets in
  place.  Whatever it returns or raises, a location keeps its \<open>sid\<close> and control point
  (only \<open>hazard_sid\<close> can change), and the locations of assets whose taxonomy is not in
  the consequence model are untouched.  When it returns, every asset of the result is
  one of the caller's assets, filed under its own taxonomy, and the caller's store holds
  a \<open>hazard_sid\<close> in its location: no copy is made.  With the keys of the two dicts
  distinct, the result lists, for every taxonomy of the consequence model in order, the
  caller's assets of that taxonomy, all of them; and with every asset owning its
  location, every asset of a modelled taxonomy has been resolved from the location the
  caller passed and its location is that location with \<open>hazard_sid\<close> set to the resolved
  id.
\<close>

theorem C9_annotation_in_place:
  assumes "exposure_by_taxonomy geo h exp_assets cons_for_hazard imfield_data c smt md = (h', r)"
  shows "(\<forall>l. loc_sid (h' l) = loc_sid (h l) \<and> hzrd_ctrl_pnt (h' l) = hzrd_ctrl_pnt (h l))
       \<and> (\<forall>l. l \<notin> asset_location ` snd `
                    {x \<in> set exp_assets. taxonomy (snd x) \<in> fst ` set cons_for_hazard}
               \<longrightarrow> h' l = h l)
       \<and> (\<forall>abt tax assets n a.
             r = Inr abt \<longrightarrow> (tax, assets) \<in> set abt \<longrightarrow> (n, a) \<in> set assets \<longrightarrow>
               (n, a) \<in> set exp_assets \<and> taxonomy a = tax
               \<and> hazard_sid (h' (asset_location a)) \<noteq> None)
       \<and> (\<forall>abt. r = Inr abt \<longrightarrow> distinct (map fst exp_assets) \<longrightarrow>
             distinct (map fst cons_for_hazard) \<longrightarrow>
               abt = map (\<lambda>t. (t, filter (\<lambda>x. taxonomy (snd x) = t) exp_assets))
                       (map fst cons_for_hazard))
       \<and> (\<forall>abt n a. r = Inr abt \<longrightarrow>
             distinct (map (\<lambda>x. asset_location (snd x)) exp_assets) \<longrightarrow>
             distinct (map fst cons_for_hazard) \<longrightarrow>
             (n, a) \<in> set exp_assets \<longrightarrow> taxonomy a \<in> fst ` set cons_for_hazard \<longrightarrow>
               (\<exists>s. resolve geo (sitecol imfield_data) c smt md (h (asset_location a)) (asset_type a)
                       = Inr s
                    \<and> h' (asset_location a) = (h (asset_location a))\<lparr>hazard_sid := Some s\<rparr>))"
proof (intro conjI allI impI)
  fix l
  from assms taxonomies_loop_heap [of _ exp_assets "map fst cons_for_hazard" h "[]" h' r l]
  show "loc_sid (h' l) = loc_sid (h l)" "hzrd_ctrl_pnt (h' l) = hzrd_ctrl_pnt (h l)"
    by (simp_all add: exposure_by_taxonomy_def)
next
  fix l
  assume "l \<notin> asset_location ` snd `
             {x \<in> set exp_assets. taxonomy (snd x) \<in> fst ` set cons_for_hazard}"
  with assms taxonomies_loop_heap [of _ exp_assets "map fst cons_for_hazard" h "[]" h' r l]
  show "h' l = h l"
    by (simp add: exposure_by_taxonomy_def)
next
  fix abt tax assets n a
  assume "r = Inr abt" "(tax, assets) \<in> set abt" "(n, a) \<in> set assets"
  with assms taxonomies_loop_result [of _ exp_assets "map fst cons_for_hazard" h "[]" h' abt
         tax assets n a]
  have "(n, a) \<in> set exp_assets \<and> taxonomy a = tax \<and> hazard_sid (h' (asset_location a)) \<noteq> None"
    by (simp add: exposure_by_taxonomy_def)
  then show "(n, a) \<in> set exp_assets" "taxonomy a = tax"
    "hazard_sid (h' (asset_location a)) \<noteq> None" by simp_all
next
  fix abt
  assume "r = Inr abt" "distinct (map fst exp_assets)" "distinct (map fst cons_for_hazard)"
  with assms taxonomies_loop_exact [of _ exp_assets "map fst cons_for_hazard" h "[]" h' abt]
  show "abt = map (\<lambda>t. (t, filter (\<lambda>x. taxonomy (snd x) = t) exp_assets))
                (map fst cons_for_hazard)"
    by (simp add: exposure_by_taxonomy_def)
next
  fix abt n a
  assume "r = Inr abt" "distinct (map (\<lambda>x. asset_location (snd x)) exp_assets)"
    "distinct (map fst cons_for_hazard)" "(n, a) \<in> set exp_assets"
    "taxonomy a \<in> fst ` set cons_for_hazard"
  with assms taxonomies_loop_annotates [of _ exp_assets "map fst cons_for_hazard" h "[]" h' abt n a]
  show "\<exists>s. resolve geo (sitecol imfield_data) c smt md (h (asset_location a)) (asset_type a)
                       = Inr s
            \<and> h' (asset_location a) = (h (asset_location a))\<lparr>hazard_sid := Some s\<rparr>"
    by (simp add: exposure_by_taxonomy_def)
qed

lemma demo_exposure:
  "exposure_by_taxonomy (\<lambda>p q. 0) bare_heap [(''a1'', demo_a1)] [(''T'', demo_tax)]
     demo_imfield True None None
   = (bare_heap(0 := \<lparr>loc_sid = SList [7], hzrd_ctrl_pnt = None, hazard_sid = Some 7\<rparr>),
      Inr [(''T'', [(''a1'', demo_a1)])])"
  by (simp add: exposure_by_taxonomy_def demo_a1_def demo_tax_def bare_heap_def resolve_def
        find_asset_sid_def lower_def lower_char_def direct_sid_def)

theorem C9_witness:
  "exposure_by_taxonomy (\<lambda>p q. 0) bare_heap [(''a1'', demo_a1)] [(''T'', demo_tax)]
     demo_imfield True None None
   = (bare_heap(0 := \<lparr>loc_sid = SList [7], hzrd_ctrl_pnt = None, hazard_sid = Some 7\<rparr>),
      Inr [(''T'', [(''a1'', demo_a1)])])
   \<and> loc_sid ((bare_heap(0 := \<lparr>loc_sid = SList [7], hzrd_ctrl_pnt = None, hazard_sid = Some 7\<rparr>)) 0)
       = loc_sid (bare_heap 0)
   \<and> (bare_heap(0 := \<lparr>loc_sid = SList [7], hzrd_ctrl_pnt = None, hazard_sid = Some 7\<rparr>)) 5
       = bare_heap 5
   \<and> (''a1'', demo_a1) \<in> set [(''a1'', demo_a1)] \<and> taxonomy demo_a1 = ''T''
   \<and> hazard_sid ((bare_heap(0 := \<lparr>loc_sid = SList [7], hzrd_ctrl_pnt = None,
                                   hazard_sid = Some 7\<rparr>)) (asset_location demo_a1)) \<noteq> None
   \<and> distinct (map fst [(''a1'', demo_a1)])
   \<and> distinct (map fst [(''T'', demo_tax)])
   \<and> distinct (map (\<lambda>x. asset_location (snd x)) [(''a1'', demo_a1)])
   \<and> taxonomy demo_a1 \<in> fst ` set [(''T'', demo_tax)]
   \<and> [(''T'', [(''a1'', demo_a1)])]
       = map (\<lambda>t. (t, filter (\<lambda>x. taxonomy (snd x) = t) [(''a1'', demo_a1)]))
           (map fst [(''T'', demo_tax)])
   \<and> (\<exists>s. resolve (\<lambda>p q. 0) (sitecol demo_imfield) True None None
              (bare_heap (asset_location demo_a1)) (asset_type demo_a1) = Inr s
          \<and> (bare_heap(0 := \<lparr>loc_sid = SList [7], hzrd_ctrl_pnt = None, hazard_sid = Some 7\<rparr>))
               (asset_location demo_a1)
             = (bare_heap (asset_location demo_a1))\<lparr>hazard_sid := Some s\<rparr>)"
proof -
  note w = C9_annotation_in_place [OF demo_exposure]
  from w [THEN conjunct1, rule_format, of 0] have a: "loc_sid ((bare_heap(0 := \<lparr>loc_sid = SList [7], hzrd_ctrl_pnt = None,
                     hazard_sid = Some 7\<rparr>)) 0) = loc_sid (bare_heap 0)"
    by simp
  have "(5::nat) \<notin> asset_location ` snd `
          {x \<in> set [(''a1'', demo_a1)]. taxonomy (snd x) \<in> fst ` set [(''T'', demo_tax)]}"
    by (auto simp: demo_a1_def)
  with w [THEN conjunct2, THEN conjunct1, rule_format, of 5] have b: "(bare_heap(0 := \<lparr>loc_sid = SList [7], hzrd_ctrl_pnt = None,
                     hazard_sid = Some 7\<rparr>)) 5 = bare_heap 5"
    by blast
  from w [THEN conjunct2, THEN conjunct2, THEN conjunct1, rule_format,
          of "[(''T'', [(''a1'', demo_a1)])]" "''T''" "[(''a1'', demo_a1)]" "''a1''" demo_a1]
  have c: "(''a1'', demo_a1) \<in> set [(''a1'', demo_a1)] \<and> taxonomy demo_a1 = ''T''
      \<and> hazard_sid ((bare_heap(0 := \<lparr>loc_sid = SList [7], hzrd_ctrl_pnt = None,
                                   hazard_sid = Some 7\<rparr>)) (asset_location demo_a1)) \<noteq> None"
    by simp
  have d1: "distinct (map fst [(''a1'', demo_a1)])" by simp
  have d2: "distinct (map fst [(''T'', demo_tax)])" by simp
  have d3: "distinct (map (\<lambda>x. asset_location (snd x)) [(''a1'', demo_a1)])" by simp
  have m1: "(''a1'', demo_a1) \<in> set [(''a1'', demo_a1)]" by simp
  have m2: "taxonomy demo_a1 \<in> fst ` set [(''T'', demo_tax)]" by (simp add: demo_a1_def)
  from w [THEN conjunct2, THEN conjunct2, THEN conjunct2, THEN conjunct1, rule_format,
          OF refl d1 d2]
  have e: "[(''T'', [(''a1'', demo_a1)])]
       = map (\<lambda>t. (t, filter (\<lambda>x. taxonomy (snd x) = t) [(''a1'', demo_a1)]))
           (map fst [(''T'', demo_tax)])"
    .
  from w [THEN conjunct2, THEN conjunct2, THEN conjunct2, THEN conjunct2, rule_format,
          OF refl d3 d2 m1 m2]
  have f: "\<exists>s. resolve (\<lambda>p q. 0) (sitecol demo_imfield) True None None
              (bare_heap (asset_location demo_a1)) (asset_type demo_a1) = Inr s
          \<and> (bare_heap(0 := \<lparr>loc_sid = SList [7], hzrd_ctrl_pnt = None, hazard_sid = Some 7\<rparr>))
               (asset_location demo_a1)
             = (bare_heap (asset_location demo_a1))\<lparr>hazard_sid := Some s\<rparr>"
    .
  from demo_exposure a b c d1 d2 d3 m2 e f show ?thesis by (intro conjI) (elim conjE, assumption)+
qed

text \<open>
  Claim C9 as stated fails: the location of the caller's asset has no \<open>hazard_sid\<close>
  before the call and holds \<open>hazard_sid = 7\<close> after it.
\<close>

theorem C9_counterexample:
  "hazard_sid (bare_heap 0) = None
   \<and> hazard_sid (fst (exposure_by_taxonomy (\<lambda>p q. 0) bare_heap [(''a1'', demo_a1)]
                        [(''T'', demo_tax)] demo_imfield True None None) 0) = Some 7"
  by (simp add: demo_exposure) (simp add: bare_heap_def)

end
